theory Spec2Isabelle
  imports Complex_Main "HOL-Library.Sublist" "HOL-Library.AList"
begin

section \<open>Loop extraction (make\_loops.py): the model\<close>

text \<open>
  The Python module works on two representations of a piece: a list of \<open>MelodyNote\<close>
  objects per track, and a list of DadaGP tokens (plain strings). Python exceptions are
  values of \<open>py_error\<close>; a function that can raise returns \<open>py_error + 'a\<close>.
  Python floats are modelled by exact rationals. The densities are quotients of two
  counts, compared with a multiple of a threshold; the tick lengths are \<open>3840 / d\<close>,
  possibly times \<open>1.5\<close>, which are whole numbers for the durations GuitarPro has
  (\<open>d\<close> a power of two up to 128), so that their float sums are exact.
\<close>

datatype py_error = ZeroDivisionError | ValueError | IndexError | KeyError

subsection \<open>String primitives\<close>

text \<open>\<open>sub in t\<close> for strings: \<open>sub\<close> occurs in \<open>t\<close> as a contiguous block.\<close>

fun contains :: "string \<Rightarrow> string \<Rightarrow> bool" where
  "contains sub [] = (sub = [])"
| "contains sub (c # cs) = (prefix sub (c # cs) \<or> contains sub cs)"

text \<open>\<open>t.split(":")[0]\<close>: the text before the first colon (all of \<open>t\<close> when it has none).\<close>

definition split_colon_head :: "string \<Rightarrow> string" where
  "split_colon_head t = takeWhile (\<lambda>c. c \<noteq> CHR '':'') t"

text \<open>
  \<open>int(s)\<close> on a string: surrounding ASCII white space is stripped, then an optional sign
  and decimal digits, where single underscores may stand between digits. Anything else
  raises \<open>ValueError\<close> (the value \<open>None\<close> here). Python also accepts white space
  and digits beyond ASCII; tokens of the grammar \<open>wait:<integer>\<close> have none.
\<close>

definition is_space :: "char \<Rightarrow> bool" where
  "is_space c = (c = CHR '' '' \<or> c = CHR 0x09 \<or> c = CHR 0x0A \<or> c = CHR 0x0B
                 \<or> c = CHR 0x0C \<or> c = CHR 0x0D)"

definition strip :: "string \<Rightarrow> string" where
  "strip s = rev (dropWhile is_space (rev (dropWhile is_space s)))"

definition digit_val :: "char \<Rightarrow> nat option" where
  "digit_val c = (let n = (of_char c :: nat) in if 48 \<le> n \<and> n \<le> 57 then Some (n - 48) else None)"

fun py_digits :: "nat \<Rightarrow> string \<Rightarrow> nat option" where
  "py_digits acc [] = Some acc"
| "py_digits acc [c] =
     (case digit_val c of None \<Rightarrow> None | Some v \<Rightarrow> Some (10 * acc + v))"
| "py_digits acc (c # d # ds) =
     (if c = CHR ''_''
      then (case digit_val d of None \<Rightarrow> None | Some v \<Rightarrow> py_digits (10 * acc + v) ds)
      else (case digit_val c of None \<Rightarrow> None | Some v \<Rightarrow> py_digits (10 * acc + v) (d # ds)))"

definition py_unsigned :: "string \<Rightarrow> nat option" where
  "py_unsigned s =
     (case s of [] \<Rightarrow> None
      | c # cs \<Rightarrow> (case digit_val c of None \<Rightarrow> None | Some v \<Rightarrow> py_digits v cs))"

definition py_int :: "string \<Rightarrow> int option" where
  "py_int s =
     (case strip s of
        [] \<Rightarrow> None
      | c # cs \<Rightarrow>
          if c = CHR ''-'' then map_option (\<lambda>n. - int n) (py_unsigned cs)
          else if c = CHR ''+'' then map_option int (py_unsigned cs)
          else map_option int (py_unsigned (c # cs)))"

subsection \<open>Per-instrument note counts\<close>

text \<open>
  The dictionaries \<open>num_notes\<close> and \<open>curr_notes\<close> map an instrument prefix to a count;
  a Python dict keeps insertion order, so they are association lists.
  \<^verbatim>\<open>
    if "note" in t:
        instrument = t.split(":")[0]
        if instrument not in num_notes: num_notes[instrument] = 1
        else: num_notes[instrument] += 1
  \<close>
\<close>

type_synonym note_counts = "(string \<times> nat) list"

definition count_note :: "string \<Rightarrow> note_counts \<Rightarrow> note_counts" where
  "count_note t num_notes =
     (if contains ''note'' t
      then (let instrument = split_colon_head t in
            case map_of num_notes instrument of
              None \<Rightarrow> AList.update instrument 1 num_notes
            | Some c \<Rightarrow> AList.update instrument (c + 1) num_notes)
      else num_notes)"

text \<open>\<open>total_notes\<close>: the sum of the counts over the keys of the dictionary.\<close>

definition total_notes :: "note_counts \<Rightarrow> nat" where
  "total_notes num_notes = sum_list (map snd num_notes)"

text \<open>
  \<open>curr_density = total_notes * 1.0 / len(num_notes)\<close>, as \<open>filter_loops_density\<close> and
  \<open>unify_loops\<close> compute it: no test for an empty dictionary.
\<close>

definition unguarded_density :: "note_counts \<Rightarrow> py_error + rat" where
  "unguarded_density num_notes =
     (if length num_notes = 0 then Inl ZeroDivisionError
      else Inr (of_nat (total_notes num_notes) / of_nat (length num_notes)))"

text \<open>The bracket parser's version of the same quotient, with its guard.\<close>

definition guarded_density :: "note_counts \<Rightarrow> rat" where
  "guarded_density curr_notes =
     (if length curr_notes = 0 then 0
      else of_nat (total_notes curr_notes) / of_nat (length curr_notes))"

text \<open>\<open>timestamp += int(t[5:])\<close> under \<open>if "wait:" in t\<close>.\<close>

definition advance :: "string \<Rightarrow> int \<Rightarrow> py_error + int" where
  "advance t timestamp =
     (if contains ''wait:'' t
      then (case py_int (drop 5 t) of None \<Rightarrow> Inl ValueError | Some n \<Rightarrow> Inr (timestamp + n))
      else Inr timestamp)"

subsection \<open>filter\_loops\_density\<close>

text \<open>
  The inner loop over the token list for one window \<open>pts\<close>; the state is
  \<open>(num_meas, timestamp, num_notes)\<close>. The loop leaves (\<open>break\<close>) once the clock has
  reached the window's end.
\<close>

fun density_pass :: "int \<times> int \<Rightarrow> string list \<Rightarrow> nat \<times> int \<times> note_counts
                      \<Rightarrow> py_error + (nat \<times> int \<times> note_counts)" where
  "density_pass pts [] st = Inr st"
| "density_pass pts (t # ts) (num_meas, timestamp, num_notes) =
     (let num_notes' = count_note t num_notes;
          num_meas' = (if fst pts \<le> timestamp \<and> timestamp < snd pts \<and> t = ''new_measure''
                       then num_meas + 1 else num_meas)
      in case advance t timestamp of
           Inl e \<Rightarrow> Inl e
         | Inr timestamp' \<Rightarrow>
             if snd pts \<le> timestamp' then Inr (num_meas', timestamp', num_notes')
             else density_pass pts ts (num_meas', timestamp', num_notes'))"

text \<open>One iteration of \<open>for pts in loop_bp\<close>: is the window appended to \<open>final_endpoints\<close>?\<close>

definition density_accepts :: "string list \<Rightarrow> rat \<Rightarrow> int \<times> int \<Rightarrow> py_error + bool" where
  "density_accepts token_list density pts =
     (case density_pass pts token_list (0, 0, []) of
        Inl e \<Rightarrow> Inl e
      | Inr (num_meas, timestamp, num_notes) \<Rightarrow>
          (case unguarded_density num_notes of
             Inl e \<Rightarrow> Inl e
           | Inr curr_density \<Rightarrow> Inr (density * of_nat num_meas \<le> curr_density)))"

fun filter_windows :: "string list \<Rightarrow> rat \<Rightarrow> (int \<times> int) list \<Rightarrow> (int \<times> int) list
                        \<Rightarrow> py_error + (int \<times> int) list" where
  "filter_windows token_list density [] final_endpoints = Inr final_endpoints"
| "filter_windows token_list density (pts # rest) final_endpoints =
     (case density_accepts token_list density pts of
        Inl e \<Rightarrow> Inl e
      | Inr ok \<Rightarrow>
          filter_windows token_list density rest
            (if ok then final_endpoints @ [pts] else final_endpoints))"

definition filter_loops_density :: "string list \<Rightarrow> (int \<times> int) list \<Rightarrow> rat
                                     \<Rightarrow> py_error + (int \<times> int) list" where
  "filter_loops_density token_list loop_bp density =
     (if length loop_bp = 0 then Inr []
      else filter_windows token_list density loop_bp [])"

subsection \<open>unify\_loops\<close>

text \<open>
  The first inner loop of \<open>unify_loops\<close> counts measures and notes as the one above does,
  but it has no \<open>wait:\<close> branch: its clock stays where it started.
\<close>

fun unify_count_pass :: "int \<times> int \<Rightarrow> string list \<Rightarrow> nat \<times> int \<times> note_counts
                          \<Rightarrow> nat \<times> int \<times> note_counts" where
  "unify_count_pass pts [] st = st"
| "unify_count_pass pts (t # ts) (num_meas, timestamp, num_notes) =
     (let num_notes' = count_note t num_notes;
          num_meas' = (if fst pts \<le> timestamp \<and> timestamp < snd pts \<and> t = ''new_measure''
                       then num_meas + 1 else num_meas)
      in if snd pts \<le> timestamp then (num_meas', timestamp, num_notes')
         else unify_count_pass pts ts (num_meas', timestamp, num_notes'))"

text \<open>
  The second inner loop, over \<open>token_list[4:]\<close>, copies the tokens of the window; the
  state is \<open>(final_list, timestamp, measure_idx)\<close>.
\<close>

fun unify_copy_pass :: "int \<times> int \<Rightarrow> nat \<Rightarrow> string list \<Rightarrow> string list \<times> int \<times> nat
                         \<Rightarrow> py_error + (string list \<times> int \<times> nat)" where
  "unify_copy_pass pts num_meas [] st = Inr st"
| "unify_copy_pass pts num_meas (t # ts) (final_list, timestamp, measure_idx) =
     (let (final_list', measure_idx') =
            (if fst pts \<le> timestamp \<and> timestamp < snd pts \<and> \<not> contains ''repeat'' t
             then (if t = ''new_measure''
                   then ((final_list @ [t])
                           @ (if measure_idx = 0 then [''measure:repeat_open''] else [])
                           @ (if int measure_idx = int num_meas - 1
                              then [''measure:repeat_close:1''] else []),
                         measure_idx + 1)
                   else (final_list @ [t], measure_idx))
             else (final_list, measure_idx))
      in case advance t timestamp of
           Inl e \<Rightarrow> Inl e
         | Inr timestamp' \<Rightarrow>
             if snd pts \<le> timestamp' then Inr (final_list', timestamp', measure_idx')
             else unify_copy_pass pts num_meas ts (final_list', timestamp', measure_idx'))"

text \<open>The body of \<open>for pts in loop_bp\<close>: \<open>continue\<close> leaves \<open>final_list\<close> as it is.\<close>

definition unify_window :: "string list \<Rightarrow> rat \<Rightarrow> int \<times> int \<Rightarrow> string list
                             \<Rightarrow> py_error + string list" where
  "unify_window token_list density pts final_list =
     (case unify_count_pass pts token_list (0, 0, []) of
        (num_meas, timestamp, num_notes) \<Rightarrow>
          (case unguarded_density num_notes of
             Inl e \<Rightarrow> Inl e
           | Inr curr_density \<Rightarrow>
               if curr_density < density * of_nat num_meas then Inr final_list
               else (case unify_copy_pass pts num_meas (drop 4 token_list) (final_list, 0, 0) of
                       Inl e \<Rightarrow> Inl e
                     | Inr (final_list', timestamp', measure_idx') \<Rightarrow> Inr final_list')))"

fun unify_windows :: "string list \<Rightarrow> rat \<Rightarrow> (int \<times> int) list \<Rightarrow> string list
                       \<Rightarrow> py_error + string list" where
  "unify_windows token_list density [] final_list = Inr final_list"
| "unify_windows token_list density (pts # rest) final_list =
     (case unify_window token_list density pts final_list of
        Inl e \<Rightarrow> Inl e
      | Inr final_list' \<Rightarrow> unify_windows token_list density rest final_list')"

definition unify_loops :: "string list \<Rightarrow> (int \<times> int) list \<Rightarrow> rat \<Rightarrow> py_error + string list" where
  "unify_loops token_list loop_bp density =
     (if length loop_bp = 0 then Inr (take 4 token_list)
      else (case unify_windows token_list density loop_bp (take 4 token_list) of
              Inl e \<Rightarrow> Inl e
            | Inr final_list \<Rightarrow> Inr (final_list @ [''measure:repeat_close:1''])))"

text \<open>
  Section 4.4 of the specification words the note count differently from the loop above:
  the notes are counted "within the window". This second definition follows those words
  (the clock is replayed over the stream, and a note token counts when the clock stands
  inside the window); it is only compared with \<open>density_pass\<close>.
\<close>

fun spec_window_note_counts :: "int \<times> int \<Rightarrow> string list \<Rightarrow> int \<Rightarrow> note_counts \<Rightarrow> note_counts" where
  "spec_window_note_counts pts [] timestamp num_notes = num_notes"
| "spec_window_note_counts pts (t # ts) timestamp num_notes =
     spec_window_note_counts pts ts
       (case advance t timestamp of Inl e \<Rightarrow> timestamp | Inr timestamp' \<Rightarrow> timestamp')
       (if fst pts \<le> timestamp \<and> timestamp < snd pts then count_note t num_notes
        else num_notes)"

subsection \<open>get\_repeats and get\_num\_repeats: the scan\<close>

text \<open>
  The state of the bracket parser. \<open>endpoint_dict\<close> maps the index of an opening
  \<open>new_measure\<close> to the index of the closing one, or to \<open>-1\<close> while the region is open;
  \<open>length_dict\<close> maps it to \<open>(curr_length, curr_density)\<close>. Both are Python dicts, read
  in insertion order later on, so they are association lists with one entry per key
  (\<open>AList.update\<close> overwrites in place and appends a new key at the end).
\<close>

record repeat_state =
  endpoint_dict :: "(nat \<times> int) list"
  length_dict :: "(nat \<times> (nat \<times> rat)) list"
  open_reps :: "nat list"
  curr_length :: nat
  curr_notes :: note_counts

definition init_state :: repeat_state where
  "init_state = \<lparr>endpoint_dict = [], length_dict = [], open_reps = [], curr_length = 0,
                  curr_notes = []\<rparr>"

text \<open>The branch \<open>if list_words[i+1] == "measure:repeat_open"\<close> of \<open>get_repeats\<close>.\<close>

definition open_region :: "nat \<Rightarrow> repeat_state \<Rightarrow> repeat_state" where
  "open_region i st =
     st\<lparr>curr_length := 1, curr_notes := [], open_reps := open_reps st @ [i],
        endpoint_dict := AList.update i (- 1) (endpoint_dict st)\<rparr>"

text \<open>
  The branch taken when one of the next two tokens contains \<open>measure:repeat_close\<close>:
  the innermost open region is popped and resolved; with nothing open and nothing
  recorded yet, index 0 stands for an implicit region.
\<close>

definition close_region :: "nat \<Rightarrow> repeat_state \<Rightarrow> repeat_state" where
  "close_region i st =
     (let curr_density = guarded_density (curr_notes st) in
      if length (open_reps st) > 0
      then (let idx = last (open_reps st) in
            st\<lparr>open_reps := butlast (open_reps st),
               endpoint_dict := AList.update idx (int i) (endpoint_dict st),
               length_dict := AList.update idx (curr_length st, curr_density) (length_dict st)\<rparr>)
      else if length (endpoint_dict st) = 0
      then st\<lparr>endpoint_dict := AList.update 0 (int i) (endpoint_dict st),
              length_dict := AList.update 0 (curr_length st, curr_density) (length_dict st)\<rparr>
      else st)"

text \<open>The body of \<open>for i in range(num_words-2)\<close> in \<open>get_repeats\<close>.\<close>

definition repeat_step :: "string list \<Rightarrow> repeat_state \<Rightarrow> nat \<Rightarrow> repeat_state" where
  "repeat_step list_words st i =
     (let t = list_words ! i;
          st1 = st\<lparr>curr_notes := count_note t (curr_notes st)\<rparr>
      in if t = ''new_measure''
         then (let st2 = st1\<lparr>curr_length := curr_length st1 + 1\<rparr>;
                   st3 = (if list_words ! (i + 1) = ''measure:repeat_open''
                          then open_region i st2 else st2)
               in if contains ''measure:repeat_close'' (list_words ! (i + 1))
                     \<or> contains ''measure:repeat_close'' (list_words ! (i + 2))
                  then close_region i st3 else st3)
         else st1)"

text \<open>
  \<open>range(num_words-2)\<close> is empty for a stream of fewer than three tokens, as
  \<open>[0..<length list_words - 2]\<close> is; inside the loop \<open>i + 2 < num_words\<close>, so the three
  reads are in range.
\<close>

definition repeat_scan :: "string list \<Rightarrow> repeat_state" where
  "repeat_scan list_words =
     foldl (repeat_step list_words) init_state [0..<length list_words - 2]"

text \<open>
  \<open>get_num_repeats\<close> repeats the loop of \<open>get_repeats\<close>; it is translated on its own,
  from its own lines.
\<close>

definition num_repeat_step :: "string list \<Rightarrow> repeat_state \<Rightarrow> nat \<Rightarrow> repeat_state" where
  "num_repeat_step list_words st i =
     (let t = list_words ! i;
          st1 = st\<lparr>curr_notes := count_note t (curr_notes st)\<rparr>
      in if t = ''new_measure''
         then (let st2 = st1\<lparr>curr_length := curr_length st1 + 1\<rparr>;
                   st3 = (if list_words ! (i + 1) = ''measure:repeat_open''
                          then st2\<lparr>curr_length := 1, curr_notes := [],
                                   open_reps := open_reps st2 @ [i],
                                   endpoint_dict := AList.update i (- 1) (endpoint_dict st2)\<rparr>
                          else st2)
               in if contains ''measure:repeat_close'' (list_words ! (i + 1))
                     \<or> contains ''measure:repeat_close'' (list_words ! (i + 2))
                  then (let curr_density = guarded_density (curr_notes st3) in
                        if length (open_reps st3) > 0
                        then (let idx = last (open_reps st3) in
                              st3\<lparr>open_reps := butlast (open_reps st3),
                                  endpoint_dict := AList.update idx (int i) (endpoint_dict st3),
                                  length_dict := AList.update idx (curr_length st3, curr_density)
                                                   (length_dict st3)\<rparr>)
                        else if length (endpoint_dict st3) = 0
                        then st3\<lparr>endpoint_dict := AList.update 0 (int i) (endpoint_dict st3),
                                 length_dict := AList.update 0 (curr_length st3, curr_density)
                                                  (length_dict st3)\<rparr>
                        else st3)
                  else st3)
         else st1)"

definition num_repeat_scan :: "string list \<Rightarrow> repeat_state" where
  "num_repeat_scan list_words =
     foldl (num_repeat_step list_words) init_state [0..<length list_words - 2]"

subsection \<open>get\_repeats and get\_num\_repeats: the filter\<close>

text \<open>
  The test under which both functions skip a region with \<open>continue\<close>:
  \<open>length_meas < min_meas or length_meas > max_meas or length_notes < density * length_meas\<close>.
\<close>

definition region_skipped :: "int \<Rightarrow> int \<Rightarrow> rat \<Rightarrow> nat \<times> rat \<Rightarrow> bool" where
  "region_skipped min_meas max_meas density entry =
     (case entry of (length_meas, length_notes) \<Rightarrow>
        int length_meas < min_meas \<or> int length_meas > max_meas
        \<or> length_notes < density * of_nat length_meas)"

text \<open>
  \<open>while(end < num_words and end >= 0)\<close>: forward to the next \<open>new_measure\<close>, or to the end
  of the stream.
\<close>

function measure_end :: "string list \<Rightarrow> nat \<Rightarrow> nat" where
  "measure_end list_words end =
     (if end < length list_words
      then (if list_words ! end = ''new_measure'' then end
            else measure_end list_words (end + 1))
      else end)"
  by pat_completeness auto
termination
  by (relation "measure (\<lambda>(list_words, end). length list_words - end)") auto

text \<open>\<open>list_words[start:end]\<close> for \<open>0 \<le> start\<close> and \<open>0 \<le> end\<close>.\<close>

definition slice :: "'a list \<Rightarrow> nat \<Rightarrow> nat \<Rightarrow> 'a list" where
  "slice xs start end = take (end - start) (drop start xs)"

text \<open>
  One iteration of \<open>for start in endpoint_dict.keys()\<close> in \<open>get_repeats\<close>: the tokens it
  appends to \<open>final_list\<close> (none after a \<open>continue\<close>). \<open>length_dict[start]\<close> raises
  \<open>KeyError\<close> for a missing key.
\<close>

definition repeat_tokens :: "string list \<Rightarrow> (nat \<times> (nat \<times> rat)) list \<Rightarrow> int \<Rightarrow> int \<Rightarrow> rat
                              \<Rightarrow> nat \<times> int \<Rightarrow> py_error + string list" where
  "repeat_tokens list_words lengths min_meas max_meas density entry =
     (case entry of (start, end) \<Rightarrow>
        if end \<le> 0 then Inr []
        else (case map_of lengths start of
                None \<Rightarrow> Inl KeyError
              | Some len \<Rightarrow>
                  if region_skipped min_meas max_meas density len then Inr []
                  else (let end' = measure_end list_words (nat (end + 1)) in
                        if end' > start then Inr (slice list_words start end') else Inr [])))"

fun collect_repeats :: "string list \<Rightarrow> (nat \<times> (nat \<times> rat)) list \<Rightarrow> int \<Rightarrow> int \<Rightarrow> rat
                         \<Rightarrow> (nat \<times> int) list \<Rightarrow> string list \<Rightarrow> py_error + string list" where
  "collect_repeats list_words lengths min_meas max_meas density [] final_list = Inr final_list"
| "collect_repeats list_words lengths min_meas max_meas density (entry # rest) final_list =
     (case repeat_tokens list_words lengths min_meas max_meas density entry of
        Inl e \<Rightarrow> Inl e
      | Inr toks \<Rightarrow>
          collect_repeats list_words lengths min_meas max_meas density rest (final_list @ toks))"

definition get_repeats :: "string list \<Rightarrow> int \<Rightarrow> int \<Rightarrow> rat \<Rightarrow> py_error + string list" where
  "get_repeats list_words min_meas max_meas density =
     (let st = repeat_scan list_words in
      if length (endpoint_dict st) > 0
      then collect_repeats list_words (length_dict st) min_meas max_meas density
             (endpoint_dict st) []
      else Inr [])"

text \<open>One iteration of the counting loop of \<open>get_num_repeats\<close>: its increment.\<close>

definition repeat_counts :: "(nat \<times> (nat \<times> rat)) list \<Rightarrow> int \<Rightarrow> int \<Rightarrow> rat
                              \<Rightarrow> nat \<times> int \<Rightarrow> py_error + nat" where
  "repeat_counts lengths min_meas max_meas density entry =
     (case entry of (start, end) \<Rightarrow>
        if end \<le> 0 then Inr 0
        else (case map_of lengths start of
                None \<Rightarrow> Inl KeyError
              | Some len \<Rightarrow>
                  if int (fst len) < min_meas \<or> int (fst len) > max_meas
                     \<or> snd len < density * of_nat (fst len)
                  then Inr 0 else Inr 1))"

fun count_repeats :: "(nat \<times> (nat \<times> rat)) list \<Rightarrow> int \<Rightarrow> int \<Rightarrow> rat
                       \<Rightarrow> (nat \<times> int) list \<Rightarrow> nat \<Rightarrow> py_error + nat" where
  "count_repeats lengths min_meas max_meas density [] num_repeats = Inr num_repeats"
| "count_repeats lengths min_meas max_meas density (entry # rest) num_repeats =
     (case repeat_counts lengths min_meas max_meas density entry of
        Inl e \<Rightarrow> Inl e
      | Inr k \<Rightarrow> count_repeats lengths min_meas max_meas density rest (num_repeats + k))"

definition get_num_repeats :: "string list \<Rightarrow> int \<Rightarrow> int \<Rightarrow> rat \<Rightarrow> py_error + nat" where
  "get_num_repeats list_words min_meas max_meas density =
     (let st = num_repeat_scan list_words in
      count_repeats (length_dict st) min_meas max_meas density (endpoint_dict st) 0)"

subsection \<open>MelodyNote\<close>

text \<open>
  \<open>guitarpro.NoteType\<close>, and the class \<open>MelodyNote\<close>. A sounded pitch is the string
  \<open>f"{n.string}:{n.value}"\<close> in the source; the pair \<open>(n.string, n.value)\<close> stands for it
  here, and \<open>(0, 0)\<close> for the rest's \<open>"0:0"\<close>. The field \<open>notes\<close> of the source is
  \<open>pitches\<close> here. The sets are finite, as Python's are.
\<close>

datatype note_type = Rest | Normal | Tie | Dead

record melody_note =
  duration :: int
  is_dotted :: bool
  tick_duration :: rat
  start_time :: int
  on_bar :: bool
  pitches :: "(int \<times> int) set"
  note_types :: "note_type set"

text \<open>
  \<open>MelodyNote.__init__(duration, start, bar_start, note_list)\<close>, with \<open>duration.value\<close>,
  \<open>duration.isDotted\<close> and the \<open>(string, value, type)\<close> of each note passed in.
\<close>

definition MelodyNote :: "int \<Rightarrow> bool \<Rightarrow> int \<Rightarrow> int \<Rightarrow> (int \<times> int \<times> note_type) list
                           \<Rightarrow> py_error + melody_note" where
  "MelodyNote duration_value duration_is_dotted start bar_start note_list =
     (if duration_value = 0 then Inl ZeroDivisionError
      else Inr \<lparr>duration = duration_value,
                is_dotted = duration_is_dotted,
                tick_duration = (if duration_is_dotted then (3840 / of_int duration_value) * (3 / 2)
                                 else 3840 / of_int duration_value),
                start_time = start,
                on_bar = (start = bar_start),
                pitches = (if length note_list > 0
                         then set (map (\<lambda>(s, v, ty). (s, v)) note_list) else {(0, 0)}),
                note_types = (if length note_list > 0
                              then set (map (\<lambda>(s, v, ty). ty) note_list) else {Rest})\<rparr>)"

text \<open>\<open>MelodyNote.__eq__\<close>; \<open>!=\<close> is its negation.\<close>

definition note_eq :: "melody_note \<Rightarrow> melody_note \<Rightarrow> bool" where
  "note_eq self other =
     (if duration self \<noteq> duration other then False
      else if is_dotted self \<noteq> is_dotted other then False
      else if card (pitches self) \<noteq> card (pitches other) then False
      else if \<not> pitches self \<subseteq> pitches other then False
      else True)"

definition is_empty_pattern :: "melody_note list \<Rightarrow> bool" where
  "is_empty_pattern p = list_all (\<lambda>melody. note_types melody = {Rest}) p"

subsection \<open>compare\_patterns and test\_loop\_exists\<close>

text \<open>
  In both branches of \<open>compare_patterns\<close> the \<open>return 1\<close> (\<open>return 2\<close>) stands inside the
  loop body, so the first iteration returns: only the notes at index 0 are compared. When
  the range is empty the function falls off its end and returns Python's \<open>None\<close>.
\<close>

definition compare_patterns :: "melody_note list \<Rightarrow> melody_note list \<Rightarrow> int option" where
  "compare_patterns p1 p2 =
     (if length p1 < length p2
      then (if length p1 = 0 then None
            else if \<not> note_eq (p1 ! 0) (p2 ! 0) then Some 0 else Some 1)
      else (if length p2 = 0 then None
            else if \<not> note_eq (p1 ! 0) (p2 ! 0) then Some 0 else Some 2))"

text \<open>
  \<open>test_loop_exists\<close>: \<open>Some (-1)\<close> to ignore the pattern, \<open>Some i\<close> for the index to
  replace, \<open>None\<close> (Python's \<open>None\<close>) to append. The first argument of the helper is the
  index that \<open>enumerate\<close> has reached.
\<close>

fun test_loop_from :: "nat \<Rightarrow> melody_note list list \<Rightarrow> melody_note list \<Rightarrow> int option" where
  "test_loop_from i [] pattern = None"
| "test_loop_from i (pat # rest) pattern =
     (let result = compare_patterns pattern pat in
      if result = Some 1 then Some (- 1)
      else if result = Some 2 then Some (int i)
      else test_loop_from (i + 1) rest pattern)"

definition test_loop_exists :: "melody_note list list \<Rightarrow> melody_note list \<Rightarrow> int option" where
  "test_loop_exists pattern_list pattern = test_loop_from 0 pattern_list pattern"

subsection \<open>calc\_correlation\<close>

text \<open>Python's \<open>xs[i]\<close> on a list: a negative index counts from the end.\<close>

definition py_nth :: "'a list \<Rightarrow> int \<Rightarrow> py_error + 'a" where
  "py_nth xs i =
     (if 0 \<le> i \<and> i < int (length xs) then Inr (xs ! nat i)
      else if i < 0 \<and> - int (length xs) \<le> i then Inr (xs ! nat (int (length xs) + i))
      else Inl IndexError)"

text \<open>
  The two matrices are lists of rows; \<open>m[i, j] = v\<close> is \<open>mat_set m i j v\<close>. The entries of
  \<open>corr_mat\<close> are \<open>int32\<close> in the source; they never exceed the length of the sequence, so
  they are unbounded integers here.
\<close>

definition mat_set :: "'a list list \<Rightarrow> nat \<Rightarrow> nat \<Rightarrow> 'a \<Rightarrow> 'a list list" where
  "mat_set m i j v = m[i := (m ! i)[j := v]]"

type_synonym corr_mats = "int list list \<times> rat list list"

text \<open>The body of \<open>for j in range(1, corr_size)\<close>, which fills row 0.\<close>

definition first_row_step :: "melody_note list \<Rightarrow> corr_mats \<Rightarrow> nat \<Rightarrow> corr_mats" where
  "first_row_step melody_seq mats j =
     (case mats of (corr_mat, corr_dur) \<Rightarrow>
        if note_eq (melody_seq ! 0) (melody_seq ! j)
        then (mat_set corr_mat 0 j 1, mat_set corr_dur 0 j (tick_duration (melody_seq ! j)))
        else (mat_set corr_mat 0 j 0, mat_set corr_dur 0 j 0))"

text \<open>The body of \<open>for j in range(i+1, corr_size)\<close> for a row \<open>i \<ge> 1\<close>.\<close>

definition cell_step :: "melody_note list \<Rightarrow> nat \<Rightarrow> corr_mats \<Rightarrow> nat \<Rightarrow> corr_mats" where
  "cell_step melody_seq i mats j =
     (case mats of (corr_mat, corr_dur) \<Rightarrow>
        if note_eq (melody_seq ! i) (melody_seq ! j)
        then (mat_set corr_mat i j (corr_mat ! (i - 1) ! (j - 1) + 1),
              mat_set corr_dur i j (corr_dur ! (i - 1) ! (j - 1) + tick_duration (melody_seq ! j)))
        else (mat_set corr_mat i j 0, mat_set corr_dur i j 0))"

definition row_step :: "melody_note list \<Rightarrow> corr_mats \<Rightarrow> nat \<Rightarrow> corr_mats" where
  "row_step melody_seq mats i =
     foldl (cell_step melody_seq i) mats [i + 1..<length melody_seq]"

definition correlation_matrices :: "melody_note list \<Rightarrow> corr_mats" where
  "correlation_matrices melody_seq =
     (let corr_size = length melody_seq;
          zeros = (replicate corr_size (replicate corr_size 0),
                   replicate corr_size (replicate corr_size 0));
          row0 = foldl (first_row_step melody_seq) zeros [1..<corr_size]
      in foldl (row_step melody_seq) row0 [1..<corr_size - 1])"

definition calc_correlation :: "melody_note list list \<Rightarrow> int
     \<Rightarrow> py_error + (int list list \<times> rat list list \<times> melody_note list)" where
  "calc_correlation track_list instrument =
     (case py_nth track_list instrument of
        Inl e \<Rightarrow> Inl e
      | Inr melody_seq \<Rightarrow>
          (case correlation_matrices melody_seq of
             (corr_mat, corr_dur) \<Rightarrow> Inr (corr_mat, corr_dur, melody_seq)))"

subsection \<open>get\_valid\_loops\<close>

text \<open>\<open>np.where(corr_mat == min_len)\<close>: the matching cells in row-major order.\<close>

definition where_eq :: "int list list \<Rightarrow> int \<Rightarrow> (nat \<times> nat) list" where
  "where_eq corr_mat min_len =
     concat (map (\<lambda>x. map (\<lambda>y. (x, y))
                         (filter (\<lambda>y. corr_mat ! x ! y = min_len) [0..<length (corr_mat ! x)]))
               [0..<length corr_mat])"

text \<open>Python's \<open>xs[b:e]\<close>: negative bounds count from the end, and both are clamped.\<close>

definition py_slice :: "'a list \<Rightarrow> int \<Rightarrow> int \<Rightarrow> 'a list" where
  "py_slice xs b e =
     (let n = int (length xs);
          b' = (if b < 0 then max 0 (n + b) else min b n);
          e' = (if e < 0 then max 0 (n + e) else min e n)
      in take (nat (e' - b')) (drop (nat b') xs))"

text \<open>
  The first loop: a seed \<open>(x, y)\<close> is valid when the span between the two occurrences, in
  beats, lies in \<open>[min_beats, max_beats]\<close>.
\<close>

fun valid_seeds :: "melody_note list \<Rightarrow> int list list \<Rightarrow> rat \<Rightarrow> rat \<Rightarrow> (nat \<times> nat) list
                     \<Rightarrow> (nat \<times> nat) list \<Rightarrow> py_error + (nat \<times> nat) list" where
  "valid_seeds melody_seq corr_mat min_beats max_beats [] valid_indices = Inr valid_indices"
| "valid_seeds melody_seq corr_mat min_beats max_beats ((x, y) # rest) valid_indices =
     (let start_x = int x - corr_mat ! x ! y + 1;
          start_y = int y - corr_mat ! x ! y + 1
      in case py_nth melody_seq start_x of
           Inl e \<Rightarrow> Inl e
         | Inr first \<Rightarrow>
             (case py_nth melody_seq start_y of
                Inl e \<Rightarrow> Inl e
              | Inr second \<Rightarrow>
                  (let loop_start_time = start_time first;
                       loop_end_time = start_time second;
                       loop_beats = of_int (loop_end_time - loop_start_time) / 960
                   in valid_seeds melody_seq corr_mat min_beats max_beats rest
                        (if loop_beats \<le> max_beats \<and> loop_beats \<ge> min_beats
                         then valid_indices @ [(x, y)] else valid_indices))))"

text \<open>The \<open>while\<close> loop that follows the diagonal while the run length grows.\<close>

function extend_run :: "int list list \<Rightarrow> nat \<Rightarrow> nat \<Rightarrow> nat \<times> nat" where
  "extend_run corr_mat x y =
     (if x + 1 < length corr_mat \<and> y + 1 < length corr_mat
         \<and> corr_mat ! (x + 1) ! (y + 1) > corr_mat ! x ! y
      then extend_run corr_mat (x + 1) (y + 1)
      else (x, y))"
  by pat_completeness auto
termination
  by (relation "measure (\<lambda>(corr_mat, x, y). length corr_mat - x)") auto

text \<open>
  Lines 176 to 182: what happens to an accepted candidate \<open>loop\<close>.
  \<open>exist_result == None\<close> appends; \<open>exist_result > 0\<close> replaces; otherwise (\<open>-1\<close> and
  \<open>0\<close>) the two lists stay as they are. The endpoints \<open>bp\<close> are only computed in the
  first two branches, where reading \<open>melody_seq[end]\<close> may raise.
\<close>

definition dedup_loop :: "melody_note list list \<times> (int \<times> int) list \<Rightarrow> melody_note list
     \<Rightarrow> py_error + (int \<times> int)
     \<Rightarrow> py_error + (melody_note list list \<times> (int \<times> int) list)" where
  "dedup_loop acc loop bp =
     (case acc of (loops, loop_bp) \<Rightarrow>
        (case test_loop_exists loops loop of
           None \<Rightarrow>
             (case bp of Inl e \<Rightarrow> Inl e
              | Inr pts \<Rightarrow> Inr (loops @ [loop], loop_bp @ [pts]))
         | Some exist_result \<Rightarrow>
             if exist_result > 0
             then (case bp of Inl e \<Rightarrow> Inl e
                   | Inr pts \<Rightarrow>
                       Inr (loops[nat exist_result := loop], loop_bp[nat exist_result := pts]))
             else Inr (loops, loop_bp)))"

text \<open>The second loop, over the valid seeds.\<close>

fun collect_loops :: "melody_note list \<Rightarrow> int list list \<Rightarrow> rat list list \<Rightarrow> rat
     \<Rightarrow> (nat \<times> nat) list \<Rightarrow> melody_note list list \<times> (int \<times> int) list
     \<Rightarrow> py_error + (melody_note list list \<times> (int \<times> int) list)" where
  "collect_loops melody_seq corr_mat corr_dur min_rep_beats [] acc = Inr acc"
| "collect_loops melody_seq corr_mat corr_dur min_rep_beats ((start_x, start_y) # rest) acc =
     (case extend_run corr_mat start_x start_y of (x, y) \<Rightarrow>
        (let beginning = int x - corr_mat ! x ! y + 1;
             duration = corr_dur ! x ! y / 960;
             end = int y - corr_mat ! x ! y + 1
         in if \<not> duration \<ge> min_rep_beats
            then collect_loops melody_seq corr_mat corr_dur min_rep_beats rest acc
            else (case py_nth melody_seq beginning of
                    Inl e \<Rightarrow> Inl e
                  | Inr first \<Rightarrow>
                      if on_bar first \<and> \<not> is_empty_pattern (py_slice melody_seq beginning end)
                      then (case dedup_loop acc (py_slice melody_seq beginning end)
                                   (case py_nth melody_seq end of
                                      Inl e \<Rightarrow> Inl e
                                    | Inr last_note \<Rightarrow>
                                        Inr (start_time first, start_time last_note)) of
                              Inl e \<Rightarrow> Inl e
                            | Inr acc' \<Rightarrow>
                                collect_loops melody_seq corr_mat corr_dur min_rep_beats rest acc')
                      else collect_loops melody_seq corr_mat corr_dur min_rep_beats rest acc)))"

definition get_valid_loops :: "melody_note list \<Rightarrow> int list list \<Rightarrow> rat list list
     \<Rightarrow> int \<Rightarrow> rat \<Rightarrow> rat \<Rightarrow> rat
     \<Rightarrow> py_error + (melody_note list list \<times> (int \<times> int) list)" where
  "get_valid_loops melody_seq corr_mat corr_dur min_len min_beats max_beats min_rep_beats =
     (case valid_seeds melody_seq corr_mat min_beats max_beats (where_eq corr_mat min_len) [] of
        Inl e \<Rightarrow> Inl e
      | Inr valid_indices \<Rightarrow>
          collect_loops melody_seq corr_mat corr_dur min_rep_beats valid_indices ([], []))"

subsection \<open>Sample token streams\<close>

text \<open>A header, then a measure with no note token at all.\<close>

definition silent_stream :: "string list" where
  "silent_stream =
     [''artist'', ''downtune:0'', ''tempo:120'', ''start'', ''new_measure'', ''wait:480'']"

text \<open>A header, a first measure with five notes and a second measure with one.\<close>

definition front_loaded_stream :: "string list" where
  "front_loaded_stream =
     [''artist'', ''downtune:0'', ''tempo:120'', ''start'',
      ''new_measure'', ''drums:note:36'', ''drums:note:38'', ''drums:note:40'',
      ''drums:note:42'', ''drums:note:36'', ''wait:960'',
      ''new_measure'', ''drums:note:36'', ''wait:960'']"

text \<open>A header, a first measure with one note and a second measure with five.\<close>

definition back_loaded_stream :: "string list" where
  "back_loaded_stream =
     [''artist'', ''downtune:0'', ''tempo:120'', ''start'',
      ''new_measure'', ''drums:note:36'', ''wait:960'',
      ''new_measure'', ''drums:note:36'', ''drums:note:38'', ''drums:note:40'',
      ''drums:note:42'', ''drums:note:36'', ''wait:960'']"

text \<open>A header and one measure with a single note.\<close>

definition sparse_stream :: "string list" where
  "sparse_stream =
     [''artist'', ''downtune:0'', ''tempo:120'', ''start'', ''new_measure'', ''drums:note:36'']"

subsection \<open>Notions used to state the properties of the bracket parser\<close>

text \<open>
  The filter of section 4.6 in the specification's words: a region of \<open>measure_length\<close>
  measures and density \<open>note_density\<close> is kept when
  \<open>min_meas \<le> measure_length \<le> max_meas\<close> and
  \<open>note_density \<ge> density \<times> measure_length\<close>.
\<close>

definition kept_region :: "int \<Rightarrow> int \<Rightarrow> rat \<Rightarrow> nat \<times> rat \<Rightarrow> bool" where
  "kept_region min_meas max_meas density entry =
     (case entry of (measure_length, note_density) \<Rightarrow>
        min_meas \<le> int measure_length \<and> int measure_length \<le> max_meas
        \<and> density * of_nat measure_length \<le> note_density)"

text \<open>
  The tokens of a region: from its opening \<open>new_measure\<close> up to the \<open>new_measure\<close> that
  follows its closing measure (or to the end of the stream).
\<close>

definition region_tokens :: "string list \<Rightarrow> nat \<times> int \<Rightarrow> string list" where
  "region_tokens list_words entry =
     (case entry of (start, end) \<Rightarrow>
        slice list_words start (measure_end list_words (nat (end + 1))))"

text \<open>
  An entry \<open>(start, end)\<close> of \<open>endpoint_dict\<close> is resolved when its end index is above 0
  (the test \<open>end <= 0\<close> of both functions skips the others); it is kept when it is
  resolved and its entry of \<open>length_dict\<close> passes the filter.
\<close>

definition entry_kept :: "repeat_state \<Rightarrow> int \<Rightarrow> int \<Rightarrow> rat \<Rightarrow> nat \<times> int \<Rightarrow> bool" where
  "entry_kept st min_meas max_meas density entry =
     (0 < snd entry
      \<and> (case map_of (length_dict st) (fst entry) of
            None \<Rightarrow> False
          | Some len \<Rightarrow> kept_region min_meas max_meas density len))"

text \<open>The kept entries of the table that the scan builds, in the table's order.\<close>

definition kept_regions :: "string list \<Rightarrow> int \<Rightarrow> int \<Rightarrow> rat \<Rightarrow> (nat \<times> int) list" where
  "kept_regions list_words min_meas max_meas density =
     filter (entry_kept (repeat_scan list_words) min_meas max_meas density)
       (endpoint_dict (repeat_scan list_words))"

text \<open>
  What holds of the parser's state before iteration \<open>i\<close>: the open regions are distinct,
  lie before \<open>i\<close> and are recorded with end \<open>-1\<close>; every key of \<open>endpoint_dict\<close> occurs
  once and lies before \<open>i\<close>; a resolved entry ends at or after its start, before \<open>i\<close>, and
  has its entry in \<open>length_dict\<close>.
\<close>

definition scan_inv :: "nat \<Rightarrow> repeat_state \<Rightarrow> bool" where
  "scan_inv i st =
     (distinct (open_reps st)
      \<and> (\<forall>s. s \<in> set (open_reps st) \<longrightarrow> s < i \<and> (s, - 1) \<in> set (endpoint_dict st))
      \<and> distinct (map fst (endpoint_dict st))
      \<and> (\<forall>s e. (s, e) \<in> set (endpoint_dict st) \<longrightarrow>
            s < i \<and> (e \<noteq> - 1 \<longrightarrow> int s \<le> e \<and> e < int i
                                \<and> map_of (length_dict st) s \<noteq> None)))"

text \<open>A repeat of two measures, two notes before its closing measure, and a measure after it.\<close>

definition two_measure_repeat :: "string list" where
  "two_measure_repeat =
     [''artist'', ''downtune:0'', ''tempo:120'', ''start'',
      ''new_measure'', ''measure:repeat_open'', ''drums:note:36'', ''drums:note:38'', ''wait:960'',
      ''new_measure'', ''measure:repeat_close:1'', ''drums:note:36'', ''wait:960'',
      ''new_measure'', ''drums:note:40'', ''wait:960'', ''end'']"

text \<open>
  A closed one-measure repeat followed by a repeat that is opened and never closed.
\<close>

definition unclosed_repeat :: "string list" where
  "unclosed_repeat =
     [''artist'', ''downtune:0'', ''tempo:120'', ''start'',
      ''new_measure'', ''measure:repeat_open'', ''measure:repeat_close:1'', ''drums:note:36'',
      ''wait:960'',
      ''new_measure'', ''measure:repeat_open'', ''drums:note:38'', ''wait:960'',
      ''new_measure'', ''drums:note:40'', ''wait:960'', ''end'']"

text \<open>
  A stream that starts with a one-measure repeat: its \<open>new_measure\<close> is the token at
  index 0, followed by the open and the close marker.
\<close>

definition repeat_at_start :: "string list" where
  "repeat_at_start =
     [''new_measure'', ''measure:repeat_open'', ''measure:repeat_close:1'', ''g:note:1'',
      ''wait:960'', ''new_measure'', ''x'', ''y'']"

text \<open>A repeat whose closing measure starts at the last but one token.\<close>

definition late_close :: "string list" where
  "late_close =
     [''artist'', ''downtune:0'', ''tempo:120'', ''start'',
      ''new_measure'', ''measure:repeat_open'', ''drums:note:36'', ''wait:960'',
      ''new_measure'', ''measure:repeat_close:1'']"

subsection \<open>Notions used to state the properties of the correlation matrices\<close>

text \<open>
  The recurrence of section 4.1 of the specification, written as two functions of the
  cell: \<open>run[0][j]\<close> is 1 when \<open>S[0] == S[j]\<close> and 0 otherwise; for \<open>i \<ge> 1\<close>,
  \<open>run[i][j] = run[i-1][j-1] + 1\<close> when \<open>S[i] == S[j]\<close> and 0 otherwise; \<open>dur\<close> adds the
  tick length of \<open>S[j]\<close> where \<open>run\<close> adds 1.
\<close>

fun spec_run :: "melody_note list \<Rightarrow> nat \<Rightarrow> nat \<Rightarrow> int" where
  "spec_run S 0 j = (if note_eq (S ! 0) (S ! j) then 1 else 0)"
| "spec_run S (Suc i) j =
     (if note_eq (S ! Suc i) (S ! j) then spec_run S i (j - 1) + 1 else 0)"

fun spec_dur :: "melody_note list \<Rightarrow> nat \<Rightarrow> nat \<Rightarrow> rat" where
  "spec_dur S 0 j = (if note_eq (S ! 0) (S ! j) then tick_duration (S ! j) else 0)"
| "spec_dur S (Suc i) j =
     (if note_eq (S ! Suc i) (S ! j) then spec_dur S i (j - 1) + tick_duration (S ! j) else 0)"

text \<open>An \<open>n \<times> n\<close> matrix.\<close>

definition square :: "nat \<Rightarrow> 'a list list \<Rightarrow> bool" where
  "square n m = (length m = n \<and> (\<forall>r. r < n \<longrightarrow> length (m ! r) = n))"

text \<open>
  What holds of the two matrices while they are filled: the rows above \<open>r\<close>, and row \<open>r\<close>
  up to column \<open>k\<close>, hold the values of the recurrence above the diagonal.
\<close>

definition cells_ok :: "melody_note list \<Rightarrow> int list list \<Rightarrow> rat list list \<Rightarrow> nat \<Rightarrow> nat \<Rightarrow> bool" where
  "cells_ok S corr_mat corr_dur r k =
     (square (length S) corr_mat \<and> square (length S) corr_dur
      \<and> (\<forall>i j. i < j \<and> j < length S \<and> (i < r \<or> (i = r \<and> j < k)) \<longrightarrow>
             corr_mat ! i ! j = spec_run S i j \<and> corr_dur ! i ! j = spec_dur S i j))"

text \<open>A note of a whole bar, alone on string 1; a four-note figure played three times.\<close>

definition whole_note :: "nat \<Rightarrow> int \<Rightarrow> melody_note" where
  "whole_note k pitch =
     \<lparr>duration = 1, is_dotted = False, tick_duration = 3840, start_time = 3840 * int k,
      on_bar = True, pitches = {(1, pitch)}, note_types = {Normal}\<rparr>"

definition riff :: "melody_note list" where
  "riff = map (\<lambda>k. whole_note k (int (k mod 4))) [0..<12]"

section \<open>Properties\<close>

subsection \<open>Density filtering\<close>

lemma filter_windows_acc:
  "filter_windows toks d bp acc = Inr out \<Longrightarrow>
     out = acc @ filter (\<lambda>p. density_accepts toks d p = Inr True) bp"
proof (induction bp arbitrary: acc)
  case Nil
  then show ?case by simp
next
  case (Cons p bp)
  show ?case
  proof (cases "density_accepts toks d p")
    case (Inl e)
    with Cons.prems show ?thesis by simp
  next
    case (Inr ok)
    with Cons.prems
    have "filter_windows toks d bp (if ok then acc @ [p] else acc) = Inr out" by simp
    from Cons.IH [OF this] Inr show ?thesis by (cases ok) simp_all
  qed
qed

lemma filter_windows_all_accepted:
  "list_all (\<lambda>p. density_accepts toks d p = Inr True) xs \<Longrightarrow>
     filter_windows toks d xs acc = Inr (acc @ xs)"
  by (induction xs arbitrary: acc) auto

text \<open>
  C2. A window in which no note token is counted: the claim asks for density 0 and a
  rejected window. On \<open>silent_stream\<close> with the window \<open>(0, 480)\<close> both
  \<open>filter_loops_density\<close> and \<open>unify_loops\<close> divide by \<open>len(num_notes) = 0\<close> and raise
  \<open>ZeroDivisionError\<close>; only the bracket parser guards the quotient.
\<close>

theorem zero_instruments_raise:
  "filter_loops_density silent_stream [(0, 480)] 3 = Inl ZeroDivisionError
   \<and> unify_loops silent_stream [(0, 480)] 3 = Inl ZeroDivisionError"
  by code_simp

text \<open>
  C3. The claim says that note tokens before the window's start are left out of the
  density. On \<open>front_loaded_stream\<close> with the window \<open>(960, 1920)\<close> the loop of
  \<open>filter_loops_density\<close> counts six notes, the five of the first measure included, where
  one note lies inside the window; the window passes the threshold 3 although its own
  density is 1.
\<close>

theorem density_counts_notes_before_window:
  "density_pass (960, 1920) front_loaded_stream (0, 0, []) = Inr (1, 1920, [(''drums'', 6)])
   \<and> spec_window_note_counts (960, 1920) front_loaded_stream 0 [] = [(''drums'', 1)]
   \<and> filter_loops_density front_loaded_stream [(960, 1920)] 3 = Inr [(960, 1920)]"
  by code_simp

text \<open>
  C4. The claim says that the output is the four header tokens when no window is accepted.
  That holds for an empty window list; when the list is not empty and every window fails
  the density rule, \<open>unify_loops\<close> still appends its final \<open>measure:repeat_close:1\<close>.
\<close>

theorem all_rejected_appends_close:
  "unify_loops sparse_stream [] 3 = Inr [''artist'', ''downtune:0'', ''tempo:120'', ''start'']
   \<and> unify_loops sparse_stream [(0, 100)] 3
       = Inr [''artist'', ''downtune:0'', ''tempo:120'', ''start'', ''measure:repeat_close:1'']"
  by code_simp

text \<open>
  C7. Density filtering is idempotent: when \<open>filter_loops_density\<close> returns a window list,
  filtering that list again with the same token stream and threshold returns it unchanged.
\<close>

theorem filter_loops_density_idempotent:
  assumes "filter_loops_density token_list loop_bp density = Inr out"
  shows "filter_loops_density token_list out density = Inr out"
proof (cases "out = []")
  case True
  then show ?thesis by (simp add: filter_loops_density_def)
next
  case False
  with assms have run: "filter_windows token_list density loop_bp [] = Inr out"
    by (auto simp: filter_loops_density_def split: if_splits)
  have "out = filter (\<lambda>p. density_accepts token_list density p = Inr True) loop_bp"
    using filter_windows_acc [OF run] by simp
  then have "list_all (\<lambda>p. density_accepts token_list density p = Inr True) out"
    by (simp add: list_all_iff)
  from filter_windows_all_accepted [OF this, of "[]"] False
  show ?thesis by (simp add: filter_loops_density_def)
qed

theorem filter_loops_density_idempotent_witness:
  "filter_loops_density back_loaded_stream [(0, 960), (960, 1920)] 3 = Inr [(960, 1920)]
   \<and> filter_loops_density back_loaded_stream [(960, 1920)] 3 = Inr [(960, 1920)]"
proof -
  have h: "filter_loops_density back_loaded_stream [(0, 960), (960, 1920)] 3 = Inr [(960, 1920)]"
    by code_simp
  from filter_loops_density_idempotent [OF h] h show ?thesis by simp
qed

subsection \<open>The bracket parser: what the scan maintains\<close>

lemma set_update_distinct:
  "distinct (map fst al) \<Longrightarrow>
     set (AList.update k v al) = insert (k, v) {p \<in> set al. fst p \<noteq> k}"
  by (induction al) (auto simp: rev_image_eqI)

lemma scan_invI:
  assumes "distinct (open_reps st)" "distinct (map fst (endpoint_dict st))"
    and "\<And>s. s \<in> set (open_reps st) \<Longrightarrow> s < i \<and> (s, - 1) \<in> set (endpoint_dict st)"
    and "\<And>s e. (s, e) \<in> set (endpoint_dict st) \<Longrightarrow> s < i"
    and "\<And>s e. (s, e) \<in> set (endpoint_dict st) \<Longrightarrow> e \<noteq> - 1 \<Longrightarrow>
           int s \<le> e \<and> e < int i \<and> map_of (length_dict st) s \<noteq> None"
  shows "scan_inv i st"
  unfolding scan_inv_def
proof (intro conjI allI impI)
  show "distinct (open_reps st)" by fact
  show "distinct (map fst (endpoint_dict st))" by fact
  fix s
  { assume "s \<in> set (open_reps st)"
    from assms(3) [OF this] show "s < i" and "(s, - 1) \<in> set (endpoint_dict st)" by simp_all }
  fix e
  assume m: "(s, e) \<in> set (endpoint_dict st)"
  from assms(4) [OF m] show "s < i" .
  { assume ne: "e \<noteq> - 1"
    from assms(5) [OF m ne]
    show "int s \<le> e" and "e < int i" and "map_of (length_dict st) s \<noteq> None" by simp_all }
qed

lemma scan_invD:
  assumes "scan_inv i st"
  shows "distinct (open_reps st)" and "distinct (map fst (endpoint_dict st))"
    and "\<And>s. s \<in> set (open_reps st) \<Longrightarrow> s < i \<and> (s, - 1) \<in> set (endpoint_dict st)"
    and "\<And>s e. (s, e) \<in> set (endpoint_dict st) \<Longrightarrow> s < i"
    and "\<And>s e. (s, e) \<in> set (endpoint_dict st) \<Longrightarrow> e \<noteq> - 1 \<Longrightarrow>
           int s \<le> e \<and> e < int i \<and> map_of (length_dict st) s \<noteq> None"
proof -
  from assms have a: "distinct (open_reps st)"
    and b: "\<forall>s. s \<in> set (open_reps st) \<longrightarrow> s < i \<and> (s, - 1) \<in> set (endpoint_dict st)"
    and c: "distinct (map fst (endpoint_dict st))"
    and d: "\<forall>s e. (s, e) \<in> set (endpoint_dict st) \<longrightarrow>
            s < i \<and> (e \<noteq> - 1 \<longrightarrow> int s \<le> e \<and> e < int i \<and> map_of (length_dict st) s \<noteq> None)"
    unfolding scan_inv_def by (rule conjunct1, rule conjunct2 [THEN conjunct1],
        rule conjunct2 [THEN conjunct2, THEN conjunct1], rule conjunct2 [THEN conjunct2, THEN conjunct2])
  show "distinct (open_reps st)" by fact
  show "distinct (map fst (endpoint_dict st))" by fact
  show "\<And>s. s \<in> set (open_reps st) \<Longrightarrow> s < i \<and> (s, - 1) \<in> set (endpoint_dict st)"
    using b by blast
  show "\<And>s e. (s, e) \<in> set (endpoint_dict st) \<Longrightarrow> s < i"
    using d by blast
  show "\<And>s e. (s, e) \<in> set (endpoint_dict st) \<Longrightarrow> e \<noteq> - 1 \<Longrightarrow>
           int s \<le> e \<and> e < int i \<and> map_of (length_dict st) s \<noteq> None"
    using d by blast
qed


lemma scan_inv_init: "scan_inv 0 init_state"
  by (simp add: scan_inv_def init_state_def)

lemma scan_inv_mono:
  assumes "scan_inv i st" shows "scan_inv (Suc i) st"
proof (rule scan_invI)
  note D = scan_invD [OF assms]
  show "distinct (open_reps st)" "distinct (map fst (endpoint_dict st))" by (fact D)+
  fix s
  { assume "s \<in> set (open_reps st)"
    from D(3) [OF this] show "s < Suc i \<and> (s, - 1) \<in> set (endpoint_dict st)" by simp }
  fix e assume m: "(s, e) \<in> set (endpoint_dict st)"
  from D(4) [OF m] show "s < Suc i" by simp
  assume "e \<noteq> - 1"
  from D(5) [OF m this]
  show "int s \<le> e \<and> e < int (Suc i) \<and> map_of (length_dict st) s \<noteq> None" by simp
qed

lemma scan_inv_notes: "scan_inv i st \<Longrightarrow> scan_inv i (st\<lparr>curr_notes := n\<rparr>)"
  by (simp add: scan_inv_def)

lemma scan_inv_length: "scan_inv i st \<Longrightarrow> scan_inv i (st\<lparr>curr_length := n\<rparr>)"
  by (simp add: scan_inv_def)

lemma scan_inv_open:
  assumes "scan_inv i st" shows "scan_inv (Suc i) (open_region i st)"
proof (rule scan_invI)
  note D = scan_invD [OF assms]
  let ?st = "open_region i st"
  have ops: "open_reps ?st = open_reps st @ [i]"
    and ld: "length_dict ?st = length_dict st"
    and ep: "endpoint_dict ?st = AList.update i (- 1) (endpoint_dict st)"
    by (simp_all add: open_region_def)
  have set_ep: "set (endpoint_dict ?st) = insert (i, - 1) {p \<in> set (endpoint_dict st). fst p \<noteq> i}"
    unfolding ep by (rule set_update_distinct [OF D(2)])
  show "distinct (open_reps ?st)" unfolding ops using D(1) D(3) by auto
  show "distinct (map fst (endpoint_dict ?st))" unfolding ep using D(2) by (simp add: distinct_update)
  fix s
  { assume "s \<in> set (open_reps ?st)"
    then consider "s = i" | "s \<in> set (open_reps st)" unfolding ops by auto
    then show "s < Suc i \<and> (s, - 1) \<in> set (endpoint_dict ?st)"
    proof cases
      case 1 then show ?thesis by (simp add: set_ep)
    next
      case 2 from D(3) [OF this] show ?thesis by (auto simp: set_ep)
    qed }
  fix e assume m: "(s, e) \<in> set (endpoint_dict ?st)"
  show "s < Suc i"
  proof (cases "s = i")
    case False
    with m have "(s, e) \<in> set (endpoint_dict st)" by (simp add: set_ep)
    from D(4) [OF this] show ?thesis by simp
  qed simp
  assume ne: "e \<noteq> - 1"
  with m have old: "(s, e) \<in> set (endpoint_dict st)" by (auto simp: set_ep)
  from D(5) [OF old ne]
  show "int s \<le> e \<and> e < int (Suc i) \<and> map_of (length_dict ?st) s \<noteq> None"
    by (simp add: ld)
qed

lemma scan_inv_close:
  assumes "scan_inv (Suc i) st" shows "scan_inv (Suc i) (close_region i st)"
proof (cases "open_reps st = []")
  case True
  from assms True show ?thesis
    unfolding scan_inv_def close_region_def Let_def
    by (simp add: update_conv' distinct_update)
next
  case False
  note D = scan_invD [OF assms]
  define idx where "idx = last (open_reps st)"
  let ?st = "close_region i st"
  have ops: "open_reps ?st = butlast (open_reps st)"
    and ld: "length_dict ?st
               = AList.update idx (curr_length st, guarded_density (curr_notes st)) (length_dict st)"
    and ep: "endpoint_dict ?st = AList.update idx (int i) (endpoint_dict st)"
    using False by (simp_all add: close_region_def Let_def idx_def)
  have set_ep: "set (endpoint_dict ?st) = insert (idx, int i) {p \<in> set (endpoint_dict st). fst p \<noteq> idx}"
    unfolding ep by (rule set_update_distinct [OF D(2)])
  from False have split: "open_reps st = butlast (open_reps st) @ [idx]"
    by (simp add: idx_def)
  with D(1) have "distinct (butlast (open_reps st) @ [idx])" by metis
  then have notin: "idx \<notin> set (butlast (open_reps st))" by simp
  have lastin: "idx \<in> set (open_reps st)" using False by (simp add: idx_def)
  from D(3) [OF lastin] have lt: "idx < Suc i" by simp
  show ?thesis
  proof (rule scan_invI)
  show "distinct (open_reps ?st)" unfolding ops using D(1) by (rule distinct_butlast)
  show "distinct (map fst (endpoint_dict ?st))" unfolding ep using D(2) by (simp add: distinct_update)
  fix s
  { assume s: "s \<in> set (open_reps ?st)"
    then have "s \<in> set (open_reps st)" unfolding ops by (rule in_set_butlastD)
    from D(3) [OF this] s notin show "s < Suc i \<and> (s, - 1) \<in> set (endpoint_dict ?st)"
      unfolding ops by (auto simp: set_ep) }
  fix e assume m: "(s, e) \<in> set (endpoint_dict ?st)"
  show "s < Suc i"
  proof (cases "s = idx")
    case True with lt show ?thesis by simp
  next
    case False
    with m have "(s, e) \<in> set (endpoint_dict st)" by (simp add: set_ep)
    from D(4) [OF this] show ?thesis .
  qed
  assume ne: "e \<noteq> - 1"
  show "int s \<le> e \<and> e < int (Suc i) \<and> map_of (length_dict ?st) s \<noteq> None"
  proof (cases "s = idx")
    case True
    with m D(2) have "e = int i"
      using set_ep by auto
    with True lt show ?thesis by (simp add: ld update_conv')
  next
    case False
    with m have old: "(s, e) \<in> set (endpoint_dict st)" by (simp add: set_ep)
    from D(5) [OF old ne] False show ?thesis by (simp add: ld update_conv')
  qed
  qed
qed

lemma scan_inv_step:
  assumes "scan_inv i st" shows "scan_inv (Suc i) (repeat_step ws st i)"
proof -
  define st1 where "st1 = st\<lparr>curr_notes := count_note (ws ! i) (curr_notes st)\<rparr>"
  define st2 where "st2 = st1\<lparr>curr_length := curr_length st1 + 1\<rparr>"
  define st3 where "st3 = (if ws ! (i + 1) = ''measure:repeat_open'' then open_region i st2 else st2)"
  have i1: "scan_inv i st1" unfolding st1_def using assms by (rule scan_inv_notes)
  then have i2: "scan_inv i st2" unfolding st2_def by (rule scan_inv_length)
  then have i3: "scan_inv (Suc i) st3"
    unfolding st3_def by (simp add: scan_inv_open scan_inv_mono)
  then have i4: "scan_inv (Suc i) (close_region i st3)" by (rule scan_inv_close)
  have "repeat_step ws st i =
          (if ws ! i = ''new_measure''
           then (if contains ''measure:repeat_close'' (ws ! (i + 1))
                    \<or> contains ''measure:repeat_close'' (ws ! (i + 2))
                 then close_region i st3 else st3)
           else st1)"
    by (simp add: repeat_step_def Let_def st1_def st2_def st3_def)
  with i1 i3 i4 show ?thesis by (simp add: scan_inv_mono)
qed

lemma scan_inv_foldl: "scan_inv n (foldl (repeat_step ws) init_state [0..<n])"
  by (induction n) (simp_all add: scan_inv_init scan_inv_step)

lemma scan_inv_scan: "scan_inv (length ws - 2) (repeat_scan ws)"
  unfolding repeat_scan_def by (rule scan_inv_foldl)

subsection \<open>The bracket parser: what the two functions return\<close>

lemma num_repeat_step_eq: "num_repeat_step ws st i = repeat_step ws st i"
  unfolding num_repeat_step_def repeat_step_def open_region_def close_region_def Let_def
  by (rule refl)

lemma num_repeat_scan_eq: "num_repeat_scan ws = repeat_scan ws"
proof -
  have "num_repeat_step ws = repeat_step ws"
    by (intro ext) (rule num_repeat_step_eq)
  then show ?thesis by (simp add: num_repeat_scan_def repeat_scan_def)
qed

declare measure_end.simps [simp del]

lemma measure_end_ge: "end \<le> measure_end ws end"
proof (induction ws "end" rule: measure_end.induct)
  case (1 ws e)
  show ?case
  proof (cases "e < length ws \<and> ws ! e \<noteq> ''new_measure''")
    case True
    with 1 have "e + 1 \<le> measure_end ws (e + 1)" by simp
    moreover from True have "measure_end ws e = measure_end ws (e + 1)"
      by (subst measure_end.simps) simp
    ultimately show ?thesis by simp
  next
    case False
    then have "measure_end ws e = e" by (subst measure_end.simps) auto
    then show ?thesis by simp
  qed
qed

lemma region_skipped_iff: "region_skipped mn mx d len = (\<not> kept_region mn mx d len)"
  by (cases len) (auto simp: region_skipped_def kept_region_def)

text \<open>What one entry of the table contributes, without the error cases.\<close>

lemma repeat_tokens_unresolved: "e \<le> 0 \<Longrightarrow> repeat_tokens ws ld mn mx d (s, e) = Inr []"
  by (simp add: repeat_tokens_def)

lemma repeat_counts_unresolved: "e \<le> 0 \<Longrightarrow> repeat_counts ld mn mx d (s, e) = Inr 0"
  by (simp add: repeat_counts_def)

lemma resolved_entry:
  assumes inv: "scan_inv i st" and m: "(s, e) \<in> set (endpoint_dict st)" and pos: "0 < e"
  shows "\<exists>len. map_of (length_dict st) s = Some len
           \<and> repeat_tokens ws (length_dict st) mn mx d (s, e)
               = Inr (if kept_region mn mx d len then region_tokens ws (s, e) else [])
           \<and> repeat_counts (length_dict st) mn mx d (s, e)
               = Inr (if kept_region mn mx d len then 1 else 0)"
proof -
  from pos have ne: "e \<noteq> - 1" by simp
  from scan_invD(5) [OF inv m ne] obtain len where
    le: "int s \<le> e" and len: "map_of (length_dict st) s = Some len" by auto
  have "nat (e + 1) \<le> measure_end ws (nat (e + 1))" by (rule measure_end_ge)
  with le pos have gt: "s < measure_end ws (nat (e + 1))" by linarith
  have t: "repeat_tokens ws (length_dict st) mn mx d (s, e)
            = Inr (if kept_region mn mx d len then region_tokens ws (s, e) else [])"
    using pos len gt by (simp add: repeat_tokens_def region_skipped_iff region_tokens_def Let_def)
  have c: "repeat_counts (length_dict st) mn mx d (s, e)
            = Inr (if kept_region mn mx d len then 1 else 0)"
    using pos len by (cases len) (auto simp: repeat_counts_def kept_region_def)
  from len t c show ?thesis by blast
qed

lemma region_tokens_nonempty:
  assumes inv: "scan_inv (length ws - 2) st" and m: "(s, e) \<in> set (endpoint_dict st)" and pos: "0 < e"
  shows "region_tokens ws (s, e) \<noteq> []"
proof -
  from pos have ne: "e \<noteq> - 1" by simp
  from scan_invD(5) [OF inv m ne] have le: "int s \<le> e" by simp
  from scan_invD(4) [OF inv m] have lt: "s < length ws" by simp
  have "nat (e + 1) \<le> measure_end ws (nat (e + 1))" by (rule measure_end_ge)
  with le pos have gt: "s < measure_end ws (nat (e + 1))" by linarith
  with lt show ?thesis by (simp add: region_tokens_def slice_def)
qed

lemma collect_repeats_concat:
  assumes "\<And>entry. entry \<in> set es \<Longrightarrow> repeat_tokens ws ld mn mx d entry = Inr (f entry)"
  shows "collect_repeats ws ld mn mx d es acc = Inr (acc @ concat (map f es))"
  using assms by (induction es arbitrary: acc) simp_all

lemma count_repeats_sum:
  assumes "\<And>entry. entry \<in> set es \<Longrightarrow> repeat_counts ld mn mx d entry = Inr (g entry)"
  shows "count_repeats ld mn mx d es k = Inr (k + sum_list (map g es))"
  using assms by (induction es arbitrary: k) simp_all

lemma concat_map_if: "concat (map (\<lambda>x. if P x then f x else []) xs) = concat (map f (filter P xs))"
  by (induction xs) simp_all

lemma sum_list_map_if: "sum_list (map (\<lambda>x. if P x then 1 else (0::nat)) xs) = length (filter P xs)"
  by (induction xs) simp_all

lemma entry_tokens:
  assumes inv: "scan_inv i st" and m: "entry \<in> set (endpoint_dict st)"
  shows "repeat_tokens ws (length_dict st) mn mx d entry
           = Inr (if entry_kept st mn mx d entry then region_tokens ws entry else [])"
proof (cases entry)
  case (Pair s e)
  show ?thesis
  proof (cases "0 < e")
    case True
    from resolved_entry [OF inv m [unfolded Pair] True, of ws mn mx d] True Pair
    show ?thesis by (auto simp: entry_kept_def)
  next
    case False
    then show ?thesis using Pair by (simp add: repeat_tokens_unresolved entry_kept_def)
  qed
qed

lemma entry_counts:
  assumes inv: "scan_inv i st" and m: "entry \<in> set (endpoint_dict st)"
  shows "repeat_counts (length_dict st) mn mx d entry
           = Inr (if entry_kept st mn mx d entry then 1 else 0)"
proof (cases entry)
  case (Pair s e)
  show ?thesis
  proof (cases "0 < e")
    case True
    from resolved_entry [OF inv m [unfolded Pair] True, of ws mn mx d] True Pair
    show ?thesis by (auto simp: entry_kept_def)
  next
    case False
    then show ?thesis using Pair by (simp add: repeat_counts_unresolved entry_kept_def)
  qed
qed

lemma get_repeats_eq:
  "get_repeats ws mn mx d = Inr (concat (map (region_tokens ws) (kept_regions ws mn mx d)))"
proof -
  let ?st = "repeat_scan ws"
  have "collect_repeats ws (length_dict ?st) mn mx d (endpoint_dict ?st) []
          = Inr ([] @ concat (map (\<lambda>entry. if entry_kept ?st mn mx d entry then region_tokens ws entry else [])
                              (endpoint_dict ?st)))"
    by (rule collect_repeats_concat) (rule entry_tokens [OF scan_inv_scan])
  then have "collect_repeats ws (length_dict ?st) mn mx d (endpoint_dict ?st) []
          = Inr (concat (map (region_tokens ws) (kept_regions ws mn mx d)))"
    by (simp add: concat_map_if kept_regions_def)
  moreover have "endpoint_dict ?st = [] \<Longrightarrow> kept_regions ws mn mx d = []"
    by (simp add: kept_regions_def)
  ultimately show ?thesis
    by (cases "endpoint_dict ?st = []") (simp_all add: get_repeats_def Let_def)
qed

lemma get_num_repeats_eq:
  "get_num_repeats ws mn mx d = Inr (length (kept_regions ws mn mx d))"
proof -
  let ?st = "repeat_scan ws"
  have "count_repeats (length_dict ?st) mn mx d (endpoint_dict ?st) 0
          = Inr (0 + sum_list (map (\<lambda>entry. if entry_kept ?st mn mx d entry then 1 else 0)
                              (endpoint_dict ?st)))"
    by (rule count_repeats_sum) (rule entry_counts [OF scan_inv_scan])
  then show ?thesis
    by (simp add: sum_list_map_if kept_regions_def get_num_repeats_def num_repeat_scan_eq Let_def)
qed

lemma concat_map_filter_irrelevant:
  assumes "\<And>x. x \<in> set xs \<Longrightarrow> \<not> Q x \<Longrightarrow> f x = []"
  shows "concat (map f (filter Q xs)) = concat (map f xs)"
  using assms by (induction xs) simp_all

lemma sum_list_map_filter_irrelevant:
  assumes "\<And>x. x \<in> set xs \<Longrightarrow> \<not> Q x \<Longrightarrow> g x = (0::nat)"
  shows "sum_list (map g (filter Q xs)) = sum_list (map g xs)"
  using assms by (induction xs) simp_all

text \<open>
  C6, as amended. The claim speaks of every resolved region; it holds for the regions
  that are resolved at an index above 0, which is what both functions test
  (\<open>if end <= 0: continue\<close>). Take an entry \<open>(start, end)\<close> of the scan's table with
  \<open>end > 0\<close>. Its lengths \<open>(measure_length, note_density)\<close> are recorded, and
  \<open>get_repeats\<close> appends its (non-empty) tokens and \<open>get_num_repeats\<close> counts it if and
  only if \<open>min_meas \<le> measure_length \<le> max_meas\<close> and
  \<open>note_density \<ge> density \<times> measure_length\<close>. Both bounds are inclusive: a region of
  \<open>max_meas + 1\<close> measures is dropped, and one of exactly \<open>max_meas\<close> measures is kept
  whenever the other two conditions hold.
\<close>

theorem repeat_region_kept_iff:
  assumes "(start, end) \<in> set (endpoint_dict (repeat_scan list_words))" and "0 < end"
  shows "\<exists>measure_length note_density.
           map_of (length_dict (repeat_scan list_words)) start = Some (measure_length, note_density)
         \<and> repeat_tokens list_words (length_dict (repeat_scan list_words))
               min_meas max_meas density (start, end)
             = Inr (if min_meas \<le> int measure_length \<and> int measure_length \<le> max_meas
                       \<and> density * of_nat measure_length \<le> note_density
                    then region_tokens list_words (start, end) else [])
         \<and> repeat_counts (length_dict (num_repeat_scan list_words))
               min_meas max_meas density (start, end)
             = Inr (if min_meas \<le> int measure_length \<and> int measure_length \<le> max_meas
                       \<and> density * of_nat measure_length \<le> note_density
                    then 1 else 0)
         \<and> region_tokens list_words (start, end) \<noteq> []
         \<and> (int measure_length = max_meas + 1 \<longrightarrow>
               repeat_tokens list_words (length_dict (repeat_scan list_words))
                 min_meas max_meas density (start, end) = Inr []
               \<and> repeat_counts (length_dict (num_repeat_scan list_words))
                   min_meas max_meas density (start, end) = Inr 0)
         \<and> (int measure_length = max_meas \<and> min_meas \<le> max_meas
              \<and> density * of_int max_meas \<le> note_density \<longrightarrow>
               repeat_tokens list_words (length_dict (repeat_scan list_words))
                 min_meas max_meas density (start, end)
                 = Inr (region_tokens list_words (start, end))
               \<and> repeat_counts (length_dict (num_repeat_scan list_words))
                   min_meas max_meas density (start, end) = Inr 1)"
proof -
  note inv = scan_inv_scan [of list_words]
  from resolved_entry [OF inv assms, of list_words min_meas max_meas density]
  obtain len where len: "map_of (length_dict (repeat_scan list_words)) start = Some len"
    and t: "repeat_tokens list_words (length_dict (repeat_scan list_words))
               min_meas max_meas density (start, end)
             = Inr (if kept_region min_meas max_meas density len
                    then region_tokens list_words (start, end) else [])"
    and c: "repeat_counts (length_dict (repeat_scan list_words))
               min_meas max_meas density (start, end)
             = Inr (if kept_region min_meas max_meas density len then 1 else 0)"
    by blast
  obtain ml nd where p: "len = (ml, nd)" by (cases len)
  have k: "kept_region min_meas max_meas density (ml, nd)
            = (min_meas \<le> int ml \<and> int ml \<le> max_meas \<and> density * of_nat ml \<le> nd)"
    by (simp add: kept_region_def)
  from region_tokens_nonempty [OF inv assms] have ne: "region_tokens list_words (start, end) \<noteq> []" .
  show ?thesis
    apply (rule exI [of _ ml], rule exI [of _ nd])
    using len t c ne unfolding p k num_repeat_scan_eq by auto
qed

theorem repeat_region_kept_iff_witness:
  "(4, 9) \<in> set (endpoint_dict (repeat_scan two_measure_repeat)) \<and> (0::int) < 9
   \<and> map_of (length_dict (repeat_scan two_measure_repeat)) 4 = Some (2, 2)
   \<and> repeat_counts (length_dict (num_repeat_scan two_measure_repeat)) 1 2 1 (4, 9) = Inr 1
   \<and> repeat_counts (length_dict (num_repeat_scan two_measure_repeat)) 1 1 1 (4, 9) = Inr 0
   \<and> repeat_tokens two_measure_repeat (length_dict (repeat_scan two_measure_repeat)) 1 2 1 (4, 9)
       = Inr (region_tokens two_measure_repeat (4, 9))
   \<and> repeat_tokens two_measure_repeat (length_dict (repeat_scan two_measure_repeat)) 1 1 1 (4, 9)
       = Inr []"
proof -
  have m: "(4, 9) \<in> set (endpoint_dict (repeat_scan two_measure_repeat))" by code_simp
  have pos: "(0::int) < 9" by simp
  have l: "map_of (length_dict (repeat_scan two_measure_repeat)) 4 = Some (2, 2)" by code_simp
  from repeat_region_kept_iff [OF m pos, of 1 2 1] repeat_region_kept_iff [OF m pos, of 1 1 1] m l
  show ?thesis by simp
qed

text \<open>
  C6, as it was stated, fails for a region that is resolved at index 0. In
  \<open>repeat_at_start\<close> the region opened at index 0 is closed at index 0: the table records
  the end 0 and the lengths \<open>(1, 0)\<close>, which pass the filter for \<open>min_meas = 1\<close>,
  \<open>max_meas = 16\<close> and \<open>density = 0\<close>; yet \<open>get_repeats\<close> returns no token and
  \<open>get_num_repeats\<close> returns 0.
\<close>

theorem region_resolved_at_start_dropped:
  "endpoint_dict (repeat_scan repeat_at_start) = [(0, 0)]
   \<and> length_dict (repeat_scan repeat_at_start) = [(0, (1, 0))]
   \<and> open_reps (repeat_scan repeat_at_start) = []
   \<and> kept_region 1 16 0 (1, 0)
   \<and> get_repeats repeat_at_start 1 16 0 = Inr []
   \<and> get_num_repeats repeat_at_start 1 16 0 = Inr 0"
  by code_simp

text \<open>
  C8. A region that is opened and never closed is still on the stack \<open>open_reps\<close> when the
  scan ends. Its table entry is \<open>(start, -1)\<close>; the entry adds no token to the output of
  \<open>get_repeats\<close> and nothing to the count of \<open>get_num_repeats\<close>: both results are the ones
  computed from the table without that entry, and neither function raises.
\<close>

theorem unclosed_region_discarded:
  assumes "start \<in> set (open_reps (repeat_scan list_words))"
  shows "(start, - 1) \<in> set (endpoint_dict (repeat_scan list_words))
       \<and> repeat_tokens list_words (length_dict (repeat_scan list_words))
            min_meas max_meas density (start, - 1) = Inr []
       \<and> repeat_counts (length_dict (num_repeat_scan list_words))
            min_meas max_meas density (start, - 1) = Inr 0
       \<and> get_repeats list_words min_meas max_meas density
           = collect_repeats list_words (length_dict (repeat_scan list_words))
               min_meas max_meas density
               (filter (\<lambda>entry. fst entry \<noteq> start) (endpoint_dict (repeat_scan list_words))) []
       \<and> get_num_repeats list_words min_meas max_meas density
           = count_repeats (length_dict (num_repeat_scan list_words)) min_meas max_meas density
               (filter (\<lambda>entry. fst entry \<noteq> start) (endpoint_dict (num_repeat_scan list_words))) 0
       \<and> (\<exists>out. get_repeats list_words min_meas max_meas density = Inr out)
       \<and> (\<exists>n. get_num_repeats list_words min_meas max_meas density = Inr n)"
proof -
  let ?st = "repeat_scan list_words"
  let ?keep = "entry_kept ?st min_meas max_meas density"
  let ?Q = "\<lambda>entry::nat \<times> int. fst entry \<noteq> start"
  note inv = scan_inv_scan [of list_words]
  from scan_invD(3) [OF inv assms] have rec: "(start, - 1) \<in> set (endpoint_dict ?st)" by simp
  have only: "\<not> ?keep entry" if "entry \<in> set (endpoint_dict ?st)" "\<not> ?Q entry" for entry
  proof -
    obtain s e where p: "entry = (s, e)" by (cases entry)
    with that have "(start, e) \<in> set (endpoint_dict ?st)" by simp
    with rec scan_invD(2) [OF inv] have "e = - 1" by (metis eq_key_imp_eq_value)
    with p show ?thesis by (simp add: entry_kept_def)
  qed
  have sub: "entry \<in> set (filter ?Q (endpoint_dict ?st)) \<Longrightarrow> entry \<in> set (endpoint_dict ?st)"
    for entry by simp
  have "collect_repeats list_words (length_dict ?st) min_meas max_meas density
          (filter ?Q (endpoint_dict ?st)) []
        = Inr ([] @ concat (map (\<lambda>entry. if ?keep entry then region_tokens list_words entry else [])
                 (filter ?Q (endpoint_dict ?st))))"
    by (rule collect_repeats_concat) (rule entry_tokens [OF inv sub])
  also have "concat (map (\<lambda>entry. if ?keep entry then region_tokens list_words entry else [])
                 (filter ?Q (endpoint_dict ?st)))
             = concat (map (\<lambda>entry. if ?keep entry then region_tokens list_words entry else [])
                 (endpoint_dict ?st))"
    by (rule concat_map_filter_irrelevant) (simp add: only)
  finally have toks: "collect_repeats list_words (length_dict ?st) min_meas max_meas density
          (filter ?Q (endpoint_dict ?st)) [] = get_repeats list_words min_meas max_meas density"
    by (simp add: get_repeats_eq concat_map_if kept_regions_def)
  have "count_repeats (length_dict ?st) min_meas max_meas density (filter ?Q (endpoint_dict ?st)) 0
        = Inr (0 + sum_list (map (\<lambda>entry. if ?keep entry then 1 else 0)
                 (filter ?Q (endpoint_dict ?st))))"
    by (rule count_repeats_sum) (rule entry_counts [OF inv sub])
  also have "sum_list (map (\<lambda>entry. if ?keep entry then 1 else 0) (filter ?Q (endpoint_dict ?st)))
             = sum_list (map (\<lambda>entry. if ?keep entry then 1 else (0::nat)) (endpoint_dict ?st))"
    by (rule sum_list_map_filter_irrelevant) (simp add: only)
  finally have cnt: "count_repeats (length_dict ?st) min_meas max_meas density
          (filter ?Q (endpoint_dict ?st)) 0 = get_num_repeats list_words min_meas max_meas density"
    by (simp add: get_num_repeats_eq sum_list_map_if kept_regions_def)
  from rec toks cnt show ?thesis
    by (simp add: num_repeat_scan_eq repeat_tokens_unresolved repeat_counts_unresolved
        get_repeats_eq get_num_repeats_eq)
qed

theorem unclosed_region_discarded_witness:
  "9 \<in> set (open_reps (repeat_scan unclosed_repeat))
   \<and> (9, - 1) \<in> set (endpoint_dict (repeat_scan unclosed_repeat))
   \<and> get_repeats unclosed_repeat 1 2 0
       = collect_repeats unclosed_repeat (length_dict (repeat_scan unclosed_repeat)) 1 2 0
           (filter (\<lambda>entry. fst entry \<noteq> 9) (endpoint_dict (repeat_scan unclosed_repeat))) []
   \<and> get_repeats unclosed_repeat 1 2 0
       = Inr [''new_measure'', ''measure:repeat_open'', ''measure:repeat_close:1'',
              ''drums:note:36'', ''wait:960'']
   \<and> get_num_repeats unclosed_repeat 1 2 0 = Inr 1"
proof -
  have h: "9 \<in> set (open_reps (repeat_scan unclosed_repeat))" by code_simp
  have r: "get_repeats unclosed_repeat 1 2 0
       = Inr [''new_measure'', ''measure:repeat_open'', ''measure:repeat_close:1'',
              ''drums:note:36'', ''wait:960'']" by code_simp
  have n: "get_num_repeats unclosed_repeat 1 2 0 = Inr 1" by code_simp
  from unclosed_region_discarded [OF h, of 1 2 0] h r n show ?thesis by simp
qed

text \<open>
  C9. The two functions build the same table, and they filter it alike: \<open>get_repeats\<close>
  returns the concatenation of the tokens of the kept regions, each of them non-empty,
  and \<open>get_num_repeats\<close> returns the number of these regions.
\<close>

theorem get_num_repeats_counts_get_repeats_regions:
  "num_repeat_scan list_words = repeat_scan list_words
   \<and> get_repeats list_words min_meas max_meas density
       = Inr (concat (map (region_tokens list_words)
                (kept_regions list_words min_meas max_meas density)))
   \<and> get_num_repeats list_words min_meas max_meas density
       = Inr (length (kept_regions list_words min_meas max_meas density))
   \<and> list_all (\<lambda>entry. region_tokens list_words entry \<noteq> [])
       (kept_regions list_words min_meas max_meas density)"
proof -
  have "region_tokens list_words entry \<noteq> []"
    if "entry \<in> set (kept_regions list_words min_meas max_meas density)" for entry
  proof -
    obtain s e where p: "entry = (s, e)" by (cases entry)
    from that have "(s, e) \<in> set (endpoint_dict (repeat_scan list_words))" and "0 < e"
      unfolding p kept_regions_def entry_kept_def by simp_all
    from region_tokens_nonempty [OF scan_inv_scan this] p show ?thesis by simp
  qed
  then show ?thesis
    by (simp add: num_repeat_scan_eq get_repeats_eq get_num_repeats_eq list_all_iff)
qed

subsection \<open>The bracket parser: the last two tokens\<close>

lemma not_close_new_measure: "\<not> contains ''measure:repeat_close'' ''new_measure''"
  by simp

lemma repeat_step_tail_update:
  assumes i: "i + 2 < length ws" and p: "length ws \<le> p + 2"
    and nm: "ws ! p = ''new_measure''"
    and t1: "t \<noteq> ''measure:repeat_open''" and t2: "\<not> contains ''measure:repeat_close'' t"
  shows "repeat_step (ws[p := t]) st i = repeat_step ws st i"
proof -
  from i p have ne: "i \<noteq> p" by simp
  have cur: "ws[p := t] ! i = ws ! i" using ne by simp
  have opn: "(ws[p := t] ! (i + 1) = ''measure:repeat_open'') = (ws ! (i + 1) = ''measure:repeat_open'')"
    using nm t1 i by (cases "i + 1 = p") (simp_all add: nth_list_update)
  have cl1: "contains ''measure:repeat_close'' (ws[p := t] ! (i + 1))
              = contains ''measure:repeat_close'' (ws ! (i + 1))"
    using nm t2 i not_close_new_measure by (cases "i + 1 = p") (simp_all add: nth_list_update)
  have cl2: "contains ''measure:repeat_close'' (ws[p := t] ! (i + 2))
              = contains ''measure:repeat_close'' (ws ! (i + 2))"
    using nm t2 i not_close_new_measure by (cases "i + 2 = p") (simp_all add: nth_list_update)
  show ?thesis unfolding repeat_step_def cur opn cl1 cl2 ..
qed

lemma repeat_scan_tail_update:
  assumes p: "length ws \<le> p + 2"
    and nm: "ws ! p = ''new_measure''"
    and t1: "t \<noteq> ''measure:repeat_open''" and t2: "\<not> contains ''measure:repeat_close'' t"
  shows "repeat_scan (ws[p := t]) = repeat_scan ws"
proof -
  have "foldl (repeat_step (ws[p := t])) init_state [0..<length ws - 2]
          = foldl (repeat_step ws) init_state [0..<length ws - 2]"
  proof (rule foldl_cong [OF refl refl])
    fix st i assume "i \<in> set [0..<length ws - 2]"
    then have "i + 2 < length ws" by auto
    from repeat_step_tail_update [OF this p nm t1 t2]
    show "repeat_step (ws[p := t]) st i = repeat_step ws st i" .
  qed
  then show ?thesis by (simp add: repeat_scan_def)
qed

text \<open>
  C10. The scan takes the indices \<open>0 .. length - 3\<close> as current tokens. A \<open>new_measure\<close>
  at one of the last two positions \<open>p\<close> is therefore only ever read as a look-ahead token:
  replacing it by any token \<open>t\<close> that is neither \<open>measure:repeat_open\<close> nor contains
  \<open>measure:repeat_close\<close> leaves the whole state of the scan (measure counts, table,
  stack) and the result of \<open>get_num_repeats\<close> unchanged, and no region starts or ends
  at \<open>p\<close>.
\<close>

theorem last_two_tokens_not_scanned:
  assumes "p < length list_words" and "length list_words \<le> p + 2"
    and "list_words ! p = ''new_measure''"
    and "t \<noteq> ''measure:repeat_open''" and "\<not> contains ''measure:repeat_close'' t"
  shows "repeat_scan (list_words[p := t]) = repeat_scan list_words
       \<and> num_repeat_scan (list_words[p := t]) = num_repeat_scan list_words
       \<and> get_num_repeats (list_words[p := t]) min_meas max_meas density
           = get_num_repeats list_words min_meas max_meas density
       \<and> (\<forall>entry \<in> set (endpoint_dict (repeat_scan list_words)).
             fst entry \<noteq> p \<and> snd entry \<noteq> int p)
       \<and> p \<notin> set (open_reps (repeat_scan list_words))"
proof -
  note inv = scan_inv_scan [of list_words]
  have scan: "repeat_scan (list_words[p := t]) = repeat_scan list_words"
    using assms(2-5) by (rule repeat_scan_tail_update)
  have ent: "fst entry \<noteq> p \<and> snd entry \<noteq> int p"
    if "entry \<in> set (endpoint_dict (repeat_scan list_words))" for entry
  proof -
    obtain s e where pr: "entry = (s, e)" by (cases entry)
    from that have m: "(s, e) \<in> set (endpoint_dict (repeat_scan list_words))" by (simp add: pr)
    from scan_invD(4) [OF inv m] assms(2) have "s \<noteq> p" by linarith
    moreover have "e \<noteq> int p"
    proof (cases "e = - 1")
      case False
      from scan_invD(5) [OF inv m False] have "e < int (length list_words - 2)" by simp
      with assms(2) show ?thesis by linarith
    qed simp
    ultimately show ?thesis by (simp add: pr)
  qed
  have opn: "p \<notin> set (open_reps (repeat_scan list_words))"
  proof
    assume "p \<in> set (open_reps (repeat_scan list_words))"
    from scan_invD(3) [OF inv this] have "p < length list_words - 2" by simp
    with assms(2) show False by linarith
  qed
  from scan ent opn show ?thesis
    by (simp add: num_repeat_scan_eq get_num_repeats_def)
qed

theorem last_two_tokens_not_scanned_witness:
  "(8::nat) < length late_close \<and> length late_close \<le> 8 + 2
   \<and> late_close ! 8 = ''new_measure''
   \<and> ''wait:0'' \<noteq> ''measure:repeat_open'' \<and> \<not> contains ''measure:repeat_close'' ''wait:0''
   \<and> repeat_scan (late_close[8 := ''wait:0'']) = repeat_scan late_close
   \<and> endpoint_dict (repeat_scan late_close) = [(4, - 1)]
   \<and> curr_length (repeat_scan late_close) = 1
   \<and> get_num_repeats late_close 1 2 0 = Inr 0"
proof -
  have a: "(8::nat) < length late_close" by code_simp
  have b: "length late_close \<le> 8 + 2" by code_simp
  have c: "late_close ! 8 = ''new_measure''" by code_simp
  have d: "''wait:0'' \<noteq> ''measure:repeat_open''" by simp
  have e: "\<not> contains ''measure:repeat_close'' ''wait:0''" by simp
  have f: "endpoint_dict (repeat_scan late_close) = [(4, - 1)]" by code_simp
  have g: "curr_length (repeat_scan late_close) = 1" by code_simp
  have h: "get_num_repeats late_close 1 2 0 = Inr 0" by code_simp
  from last_two_tokens_not_scanned [OF a b c d e, of 1 2 0] a b c d e f g h
  show ?thesis by simp
qed

subsection \<open>The correlation matrices\<close>

lemma mat_set_nth:
  assumes "i < length m" and "j < length (m ! i)"
  shows "mat_set m i j v ! a ! b = (if a = i \<and> b = j then v else m ! a ! b)"
proof (cases "a = i")
  case True
  with assms show ?thesis by (simp add: mat_set_def nth_list_update)
next
  case False
  then show ?thesis by (simp add: mat_set_def)
qed

lemma mat_set_square:
  assumes "square n m" shows "square n (mat_set m i j v)"
proof (cases "i < length m")
  case True
  with assms show ?thesis
    unfolding square_def mat_set_def by (auto simp: nth_list_update)
next
  case False
  then have "m[i := (m ! i)[j := v]] = m" by (simp add: list_update_beyond)
  with assms show ?thesis by (simp add: mat_set_def)
qed

lemma spec_run_rec:
  "1 \<le> i \<Longrightarrow> spec_run S i j = (if note_eq (S ! i) (S ! j) then spec_run S (i - 1) (j - 1) + 1 else 0)"
  by (cases i) simp_all

lemma spec_dur_rec:
  "1 \<le> i \<Longrightarrow> spec_dur S i j
     = (if note_eq (S ! i) (S ! j) then spec_dur S (i - 1) (j - 1) + tick_duration (S ! j) else 0)"
  by (cases i) simp_all

lemma cells_okD:
  assumes "cells_ok S cm cd r k"
  shows "square (length S) cm" and "square (length S) cd"
    and "\<And>i j. i < j \<Longrightarrow> j < length S \<Longrightarrow> i < r \<or> (i = r \<and> j < k) \<Longrightarrow>
           cm ! i ! j = spec_run S i j \<and> cd ! i ! j = spec_dur S i j"
  using assms unfolding cells_ok_def by blast+

lemma cells_ok_set:
  assumes ok: "cells_ok S cm cd r k" and rk: "r < k" and kn: "k < length S"
    and v: "v = spec_run S r k" and w: "w = spec_dur S r k"
  shows "cells_ok S (mat_set cm r k v) (mat_set cd r k w) r (Suc k)"
proof -
  note D = cells_okD [OF ok]
  from D(1) rk kn have b1: "r < length cm" "k < length (cm ! r)" by (simp_all add: square_def)
  from D(2) rk kn have b2: "r < length cd" "k < length (cd ! r)" by (simp_all add: square_def)
  have "mat_set cm r k v ! i ! j = spec_run S i j \<and> mat_set cd r k w ! i ! j = spec_dur S i j"
    if "i < j" "j < length S" "i < r \<or> (i = r \<and> j < Suc k)" for i j
  proof (cases "i = r \<and> j = k")
    case True
    with v w show ?thesis by (simp add: mat_set_nth [OF b1] mat_set_nth [OF b2])
  next
    case False
    with that have "i < r \<or> (i = r \<and> j < k)" by auto
    from D(3) [OF that(1,2) this] False show ?thesis
      by (auto simp: mat_set_nth [OF b1] mat_set_nth [OF b2])
  qed
  with mat_set_square [OF D(1)] mat_set_square [OF D(2)] show ?thesis
    unfolding cells_ok_def by blast
qed

lemma first_row_step_ok:
  assumes ok: "cells_ok S cm cd 0 k" and rk: "0 < k" and kn: "k < length S"
  shows "case first_row_step S (cm, cd) k of (cm', cd') \<Rightarrow> cells_ok S cm' cd' 0 (Suc k)"
  unfolding first_row_step_def
  by (auto intro!: cells_ok_set [OF ok rk kn])

lemma cell_step_ok:
  assumes ok: "cells_ok S cm cd r k" and r1: "1 \<le> r" and rk: "r < k" and kn: "k < length S"
  shows "case cell_step S r (cm, cd) k of (cm', cd') \<Rightarrow> cells_ok S cm' cd' r (Suc k)"
proof -
  from r1 rk kn have "r - 1 < k - 1" "k - 1 < length S" "r - 1 < r \<or> (r - 1 = r \<and> k - 1 < k)"
    by auto
  from cells_okD(3) [OF ok this]
  have prev: "cm ! (r - 1) ! (k - 1) = spec_run S (r - 1) (k - 1)"
             "cd ! (r - 1) ! (k - 1) = spec_dur S (r - 1) (k - 1)" by simp_all
  show ?thesis
    unfolding cell_step_def using prev
    by (auto intro!: cells_ok_set [OF ok rk kn] simp: spec_run_rec [OF r1] spec_dur_rec [OF r1])
qed


lemma first_row_ok:
  assumes "cells_ok S cm cd 0 1" and "k \<le> length S"
  shows "case foldl (first_row_step S) (cm, cd) [Suc 0..<k] of (cm', cd') \<Rightarrow> cells_ok S cm' cd' 0 (max 1 k)"
  using assms(2)
proof (induction k)
  case 0
  with assms(1) show ?case by simp
next
  case (Suc k)
  show ?case
  proof (cases "k = 0")
    case True
    with assms(1) show ?thesis by simp
  next
    case False
    then have up: "[Suc 0..<Suc k] = [Suc 0..<k] @ [k]" by simp
    obtain cm' cd' where f: "foldl (first_row_step S) (cm, cd) [Suc 0..<k] = (cm', cd')"
      by (cases "foldl (first_row_step S) (cm, cd) [Suc 0..<k]")
    from Suc f False have "cells_ok S cm' cd' 0 k" by simp
    from first_row_step_ok [OF this] False Suc.prems
    show ?thesis by (simp add: up f)
  qed
qed

lemma row_ok:
  assumes "cells_ok S cm cd r (Suc r)" and "1 \<le> r" and "Suc r \<le> k" and "k \<le> length S"
  shows "case foldl (cell_step S r) (cm, cd) [Suc r..<k] of (cm', cd') \<Rightarrow> cells_ok S cm' cd' r k"
  using assms(3,4)
proof (induction k)
  case 0
  then show ?case by simp
next
  case (Suc k)
  show ?case
  proof (cases "k = r")
    case True
    with assms(1) show ?thesis by simp
  next
    case False
    with Suc.prems have lt: "Suc r \<le> k" by simp
    then have up: "[Suc r..<Suc k] = [Suc r..<k] @ [k]" by simp
    obtain cm' cd' where f: "foldl (cell_step S r) (cm, cd) [Suc r..<k] = (cm', cd')"
      by (cases "foldl (cell_step S r) (cm, cd) [Suc r..<k]")
    from Suc lt f have "cells_ok S cm' cd' r k" by simp
    from cell_step_ok [OF this assms(2)] lt Suc.prems
    show ?thesis by (simp add: up f)
  qed
qed

lemma cells_ok_next_row:
  assumes "cells_ok S cm cd r (length S)" shows "cells_ok S cm cd (Suc r) (Suc (Suc r))"
proof -
  note D = cells_okD [OF assms]
  have "cm ! i ! j = spec_run S i j \<and> cd ! i ! j = spec_dur S i j"
    if "i < j" "j < length S" "i < Suc r \<or> (i = Suc r \<and> j < Suc (Suc r))" for i j
  proof -
    from that have "i < r \<or> (i = r \<and> j < length S)" by auto
    from D(3) [OF that(1,2) this] show ?thesis .
  qed
  with D(1,2) show ?thesis unfolding cells_ok_def by blast
qed

lemma row_step_ok:
  assumes "cells_ok S cm cd r (Suc r)" and "1 \<le> r" and "Suc r \<le> length S"
  shows "case row_step S (cm, cd) r of (cm', cd') \<Rightarrow> cells_ok S cm' cd' (Suc r) (Suc (Suc r))"
proof -
  obtain cm' cd' where f: "row_step S (cm, cd) r = (cm', cd')" by (cases "row_step S (cm, cd) r")
  from row_ok [OF assms(1,2) assms(3) le_refl] f have "cells_ok S cm' cd' r (length S)"
    by (simp add: row_step_def)
  from cells_ok_next_row [OF this] f show ?thesis by simp
qed

lemma rows_ok:
  assumes "cells_ok S cm cd 1 2" and "Suc k \<le> length S"
  shows "case foldl (row_step S) (cm, cd) [Suc 0..<k] of (cm', cd') \<Rightarrow>
           cells_ok S cm' cd' (max 1 k) (Suc (max 1 k))"
  using assms(2)
proof (induction k)
  case 0
  with assms(1) show ?case by (simp add: numeral_2_eq_2)
next
  case (Suc k)
  show ?case
  proof (cases "k = 0")
    case True
    with assms(1) show ?thesis by (simp add: numeral_2_eq_2)
  next
    case False
    then have up: "[Suc 0..<Suc k] = [Suc 0..<k] @ [k]" by simp
    obtain cm' cd' where f: "foldl (row_step S) (cm, cd) [Suc 0..<k] = (cm', cd')"
      by (cases "foldl (row_step S) (cm, cd) [Suc 0..<k]")
    from Suc f False have "cells_ok S cm' cd' k (Suc k)" by simp
    from row_step_ok [OF this] False Suc.prems
    show ?thesis by (simp add: up f)
  qed
qed

lemma zeros_ok:
  "cells_ok S (replicate (length S) (replicate (length S) 0))
     (replicate (length S) (replicate (length S) 0)) 0 1"
  unfolding cells_ok_def square_def by simp

lemma correlation_matrices_ok:
  assumes "correlation_matrices S = (cm, cd)" and "i < j" and "j < length S"
  shows "cm ! i ! j = spec_run S i j \<and> cd ! i ! j = spec_dur S i j"
proof -
  let ?n = "length S"
  let ?z = "replicate ?n (replicate ?n (0::int))"
  let ?zd = "replicate ?n (replicate ?n (0::rat))"
  obtain cm0 cd0 where r0: "foldl (first_row_step S) (?z, ?zd) [Suc 0..<?n] = (cm0, cd0)"
    by (cases "foldl (first_row_step S) (?z, ?zd) [Suc 0..<?n]")
  from first_row_ok [OF zeros_ok le_refl, of S] r0 have "cells_ok S cm0 cd0 0 (max 1 ?n)" by simp
  moreover from assms have "max 1 ?n = ?n" by simp
  ultimately have "cells_ok S cm0 cd0 0 ?n" by simp
  then have one: "cells_ok S cm0 cd0 1 2" using cells_ok_next_row by (simp add: numeral_2_eq_2)
  from assms have "Suc (?n - 1) \<le> ?n" by simp
  from rows_ok [OF one this] assms(1) r0
  have fin: "cells_ok S cm cd (max 1 (?n - 1)) (Suc (max 1 (?n - 1)))"
    by (simp add: correlation_matrices_def Let_def)
  from assms have "i < max 1 (?n - 1) \<or> (i = max 1 (?n - 1) \<and> j < Suc (max 1 (?n - 1)))" by auto
  from cells_okD(3) [OF fin assms(2,3) this] show ?thesis .
qed

lemma spec_run_window:
  assumes "i < j" and "j < length S"
  shows "0 \<le> spec_run S i j \<and> nat (spec_run S i j) \<le> i + 1
       \<and> (\<forall>m < nat (spec_run S i j).
             note_eq (S ! (i + 1 - nat (spec_run S i j) + m)) (S ! (j + 1 - nat (spec_run S i j) + m)))
       \<and> spec_dur S i j
           = sum_list (map tick_duration (take (nat (spec_run S i j))
                                            (drop (j + 1 - nat (spec_run S i j)) S)))"
  using assms
proof (induction i arbitrary: j)
  case 0
  then show ?case by (simp add: take_Suc_conv_app_nth)
next
  case (Suc i)
  show ?case
  proof (cases "note_eq (S ! Suc i) (S ! j)")
    case False
    then show ?thesis by simp
  next
    case True
    define k where "k = nat (spec_run S i (j - 1))"
    from Suc.prems have pj: "i < j - 1" "j - 1 < length S" by simp_all
    from Suc.IH [OF pj] have nn: "0 \<le> spec_run S i (j - 1)" and le: "k \<le> i + 1"
      and win: "\<And>m. m < k \<Longrightarrow> note_eq (S ! (i + 1 - k + m)) (S ! (j - 1 + 1 - k + m))"
      and dur: "spec_dur S i (j - 1) = sum_list (map tick_duration (take k (drop (j - 1 + 1 - k) S)))"
      unfolding k_def by blast+
    from True nn have run: "nat (spec_run S (Suc i) j) = Suc k" by (simp add: k_def nat_add_distrib)
    from Suc.prems have j1: "j - 1 + 1 = j" by simp
    from le Suc.prems have kj: "k \<le> j" by simp
    have w: "note_eq (S ! (Suc i + 1 - Suc k + m)) (S ! (j + 1 - Suc k + m))" if "m < Suc k" for m
    proof (cases "m < k")
      case True
      have "Suc i + 1 - Suc k + m = i + 1 - k + m" "j + 1 - Suc k + m = j - 1 + 1 - k + m"
        using j1 by simp_all
      with win [OF True] show ?thesis by metis
    next
      case False
      with that have "m = k" by simp
      with le kj have "Suc i + 1 - Suc k + m = Suc i" "j + 1 - Suc k + m = j" by simp_all
      with \<open>note_eq (S ! Suc i) (S ! j)\<close> show ?thesis by metis
    qed
    have len: "k < length (drop (j - k) S)" using Suc.prems kj by simp
    have d: "spec_dur S (Suc i) j
              = sum_list (map tick_duration (take (Suc k) (drop (j + 1 - Suc k) S)))"
      using True dur kj Suc.prems by (simp add: j1 take_Suc_conv_app_nth [OF len])
    from True nn le w d show ?thesis unfolding run by simp
  qed
qed

text \<open>
  C5. Let \<open>run\<close> and \<open>dur\<close> be the matrices that \<open>calc_correlation\<close> builds for the
  sequence \<open>S\<close>, and let \<open>run[i][j] = k > 0\<close> for \<open>i < j\<close>. Then \<open>S[i] == S[j]\<close>, the
  window of \<open>k\<close> notes that ends at \<open>i\<close> lies inside the sequence and equals, note by
  note, the window of \<open>k\<close> notes that ends at \<open>j\<close>, and \<open>dur[i][j]\<close> is the sum of the
  tick lengths of \<open>S[j-k+1 .. j]\<close>. (Tick lengths are exact rationals here.)
\<close>

theorem calc_correlation_run_window:
  assumes "calc_correlation track_list instrument = Inr (run, dur, S)"
    and "i < j" and "j < length S" and "run ! i ! j = k" and "0 < k"
  shows "note_eq (S ! i) (S ! j)
       \<and> nat k \<le> i + 1
       \<and> (\<forall>m < nat k. note_eq (S ! (i + 1 - nat k + m)) (S ! (j + 1 - nat k + m)))
       \<and> dur ! i ! j = sum_list (map tick_duration (take (nat k) (drop (j + 1 - nat k) S)))"
proof -
  from assms(1) have cm: "correlation_matrices S = (run, dur)"
    by (auto simp: calc_correlation_def split: sum.splits prod.splits)
  from correlation_matrices_ok [OF cm assms(2,3)] assms(4)
  have r: "spec_run S i j = k" and d: "dur ! i ! j = spec_dur S i j" by simp_all
  note W = spec_run_window [OF assms(2,3), unfolded r]
  from W have le: "nat k \<le> i + 1"
    and win: "\<And>m. m < nat k \<Longrightarrow> note_eq (S ! (i + 1 - nat k + m)) (S ! (j + 1 - nat k + m))"
    and sum: "spec_dur S i j = sum_list (map tick_duration (take (nat k) (drop (j + 1 - nat k) S)))"
    by blast+
  from assms(5) have lt: "nat k - 1 < nat k" by simp
  from le assms(2,5) have "i + 1 - nat k + (nat k - 1) = i" "j + 1 - nat k + (nat k - 1) = j"
    by linarith+
  with win [OF lt] have "note_eq (S ! i) (S ! j)" by metis
  with le win sum d show ?thesis by metis
qed

theorem calc_correlation_run_window_witness:
  "calc_correlation [riff] 0 = Inr (fst (correlation_matrices riff), snd (correlation_matrices riff), riff)
   \<and> (5::nat) < 9 \<and> 9 < length riff
   \<and> fst (correlation_matrices riff) ! 5 ! 9 = 6 \<and> (0::int) < 6
   \<and> note_eq (riff ! 5) (riff ! 9)
   \<and> note_eq (riff ! 0) (riff ! 4)
   \<and> snd (correlation_matrices riff) ! 5 ! 9 = 23040"
proof -
  have a: "calc_correlation [riff] 0
            = Inr (fst (correlation_matrices riff), snd (correlation_matrices riff), riff)"
    by (simp add: calc_correlation_def py_nth_def split: prod.splits)
  have b: "(5::nat) < 9" by simp
  have c: "9 < length riff" by (simp add: riff_def)
  have d: "fst (correlation_matrices riff) ! 5 ! 9 = 6" by code_simp
  have e: "(0::int) < 6" by simp
  have f: "sum_list (map tick_duration (take (nat 6) (drop (9 + 1 - nat 6) riff))) = 23040"
    by code_simp
  from calc_correlation_run_window [OF a b c d e]
  have g: "note_eq (riff ! 5) (riff ! 9)"
    and h: "\<forall>m < nat 6. note_eq (riff ! (5 + 1 - nat 6 + m)) (riff ! (9 + 1 - nat 6 + m))"
    and i: "snd (correlation_matrices riff) ! 5 ! 9
             = sum_list (map tick_duration (take (nat 6) (drop (9 + 1 - nat 6) riff)))"
    by blast+
  have "(0::nat) < nat 6" by simp
  with h have "note_eq (riff ! (5 + 1 - nat 6 + 0)) (riff ! (9 + 1 - nat 6 + 0))" by blast
  then have j: "note_eq (riff ! 0) (riff ! 4)" by simp
  from a b c d e g j i f show ?thesis by simp
qed

subsection \<open>Deduplication of loops\<close>

text \<open>
  C1. The claim says that a longer candidate with the same first note replaces the
  accepted loop at every index, index 0 included. \<open>riff\<close> is a four-note figure played
  three times; with the default parameters the first candidate is \<open>riff[0:4]\<close>, accepted
  at index 0, and the second is \<open>riff[0:8]\<close>, for which \<open>test_loop_exists\<close> returns 0.
  The test \<open>exist_result > 0\<close> then fails and the lists stay as they were. At index 1
  the same candidate does replace.
\<close>

theorem first_loop_never_replaced:
  "calc_correlation [riff] 0
     = Inr (fst (correlation_matrices riff), snd (correlation_matrices riff), riff)
   \<and> get_valid_loops riff (fst (correlation_matrices riff)) (snd (correlation_matrices riff))
       4 16 32 4
     = Inr ([take 4 riff], [(0, 15360)])
   \<and> test_loop_exists [take 4 riff] (take 8 riff) = Some 0
   \<and> dedup_loop ([take 4 riff], [(0, 15360)]) (take 8 riff) (Inr (0, 30720))
     = Inr ([take 4 riff], [(0, 15360)])
   \<and> dedup_loop ([drop 1 (take 5 riff), take 4 riff], [(3840, 19200), (0, 15360)])
       (take 8 riff) (Inr (0, 30720))
     = Inr ([drop 1 (take 5 riff), take 8 riff], [(3840, 19200), (0, 30720)])"
  by code_simp

end
